theory Spec2Isabelle
  imports Main
begin

section \<open>Messages, tool calls and the graph state\<close>

text \<open>
  A tool call as the routing function reads it: the name of the tool, the argument
  payload (key/value data) and the identifier the model attached to the call.
\<close>

record tool_call =
  name :: string
  args :: "(string \<times> string) list"
  call_id :: "string option"

text \<open>
  A message of the history. \<open>getType\<close> is the result of \<open>_getType()\<close> (\<open>''ai''\<close>,
  \<open>''human''\<close>, \<open>''tool''\<close>, \<open>''system''\<close>, ...). \<open>tool_calls\<close> is
  \<open>None\<close> where the property is undefined (it does not exist on messages other than
  AI messages, and is optional there).
\<close>

record message =
  getType :: string
  content :: string
  tool_calls :: "tool_call list option"

text \<open>
  The graph state: \<open>state.messages\<close>. The record is extensible, so every function
  below that takes a \<open>'a state_scheme\<close> also accepts a state with further fields.
\<close>

record state =
  messages :: "message list"

section \<open>The routing function \<open>shouldContinue\<close>\<close>

text \<open>The node names of the graph; \<open>END\<close> is the virtual node \<open>__end__\<close>.\<close>

definition END :: string where
  "END = ''__end__''"

definition START :: string where
  "START = ''__start__''"

text \<open>
  \<open>shouldContinue\<close> returns either the single node name \<open>END\<close> or an array of node
  names, one per tool call.
\<close>

datatype route = Node string | Nodes "string list"

text \<open>
  The two ways the function can throw: reading \<open>_getType\<close> of \<open>undefined\<close> (the
  state has no message, so \<open>messages[messages.length - 1]\<close> is \<open>undefined\<close>), and
  the explicit \<open>throw new Error(...)\<close>.
\<close>

datatype js_error = TypeError | Error string

text \<open>\<open>messages[messages.length - 1]\<close>: \<open>None\<close> is \<open>undefined\<close>.\<close>

definition lastMessage :: "message list \<Rightarrow> message option" where
  "lastMessage msgs = (if length msgs = 0 then None else Some (msgs ! (length msgs - 1)))"

text \<open>\<open>!tool_calls?.length\<close>: true when the array is undefined or empty.\<close>

definition no_length :: "tool_call list option \<Rightarrow> bool" where
  "no_length tcs = (case tcs of None \<Rightarrow> True | Some xs \<Rightarrow> length xs = 0)"

text \<open>The callback given to \<open>tool_calls.map\<close>.\<close>

definition route_tool_call :: "tool_call \<Rightarrow> string" where
  "route_tool_call tc =
     (if name tc = ''create_or_update_claim'' then ''prepare_claim_detail''
      else if name tc = ''approve_payment'' then ''execute_approve_payment''
      else ''tools'')"

definition shouldContinue :: "'a state_scheme \<Rightarrow> js_error + route" where
  "shouldContinue st =
     (case lastMessage (messages st) of
        None \<Rightarrow> Inl TypeError
      | Some messageCastAI \<Rightarrow>
          if getType messageCastAI \<noteq> ''ai'' \<or> no_length (tool_calls messageCastAI)
          then Inr (Node END)
          else if no_length (tool_calls messageCastAI)
          then Inl (Error ''Expected tool_calls to be an array with at least one element'')
          else (case tool_calls messageCastAI of
                  None \<Rightarrow> Inl TypeError
                | Some tcs \<Rightarrow> Inr (Nodes (map route_tool_call tcs))))"

section \<open>The graph built by \<open>builder\<close>\<close>

text \<open>The four functions registered as nodes.\<close>

datatype node_fn = CallModel | ToolNodeAllTools | ValidateClaimDetail | ValidateApprovalRequest

text \<open>
  A graph under construction: the nodes with their functions, the regular edges, and
  the conditional edges (source node and the targets its routing function may select).
\<close>

record graph =
  nodes :: "(string \<times> node_fn) list"
  edges :: "(string \<times> string) list"
  conditionalEdges :: "(string \<times> string list) list"

definition StateGraph :: graph where
  "StateGraph = \<lparr>nodes = [], edges = [], conditionalEdges = []\<rparr>"

definition addNode :: "string \<Rightarrow> node_fn \<Rightarrow> graph \<Rightarrow> graph" where
  "addNode n f g = g\<lparr>nodes := nodes g @ [(n, f)]\<rparr>"

definition addEdge :: "string \<Rightarrow> string \<Rightarrow> graph \<Rightarrow> graph" where
  "addEdge a b g = g\<lparr>edges := edges g @ [(a, b)]\<rparr>"

definition addConditionalEdges :: "string \<Rightarrow> string list \<Rightarrow> graph \<Rightarrow> graph" where
  "addConditionalEdges a ts g = g\<lparr>conditionalEdges := conditionalEdges g @ [(a, ts)]\<rparr>"

text \<open>
  The chain of calls of the source, in its order. The routing function of the one
  conditional edge is \<open>shouldContinue\<close>.
\<close>

definition builder :: graph where
  "builder =
     (addConditionalEdges ''agent''
        [''tools'', ''prepare_claim_detail'', ''execute_approve_payment'', END]
     (addEdge ''execute_approve_payment'' ''tools''
     (addEdge ''prepare_claim_detail'' ''tools''
     (addEdge ''tools'' ''agent''
     (addEdge START ''agent''
     (addNode ''execute_approve_payment'' ValidateApprovalRequest
     (addNode ''prepare_claim_detail'' ValidateClaimDetail
     (addNode ''tools'' ToolNodeAllTools
     (addNode ''agent'' CallModel StateGraph)))))))))"

text \<open>The function registered under a node name.\<close>

definition node_of :: "graph \<Rightarrow> string \<Rightarrow> node_fn option" where
  "node_of g n = map_of (nodes g) n"

text \<open>The nodes that a regular edge leaves \<open>n\<close> for.\<close>

definition successors :: "graph \<Rightarrow> string \<Rightarrow> string list" where
  "successors g n = map snd (filter (\<lambda>e. fst e = n) (edges g))"

text \<open>The nodes a conditional edge from \<open>n\<close> may select.\<close>

definition conditional_targets :: "graph \<Rightarrow> string \<Rightarrow> string list" where
  "conditional_targets g n = concat (map snd (filter (\<lambda>e. fst e = n) (conditionalEdges g)))"

section \<open>The model node \<open>callModel\<close>\<close>

text \<open>
  Modelled from the spec: the results of the collaborators whose modules are missing
  (\<open>tools.js\<close>, \<open>validateClaimDetails.js\<close>, \<open>validateApprovalRules.js\<close>). By
  section 6 a tool's executor returns its output or reports a failure. By section 4.2 a
  validation gate, given the history and one proposed action, either forwards the action
  with its (possibly enriched) arguments or rejects it with an explanation.
\<close>

datatype tool_output = ToolResultPayload string | ToolFailure string

datatype gate_result = Forward "(string \<times> string) list" | Reject string

text \<open>
  The collaborators that the graph module imports from other modules are parameters of
  the development: the text of the system message (\<open>systemSetUpMessage()\<close>), the chat
  model with the tools bound (\<open>model.bindTools(ALL_TOOLS).invoke\<close>), the tools of
  \<open>ALL_TOOLS\<close> with their names and executors, and the two validation functions.
\<close>

record env =
  systemSetUpMessage :: string
  model :: "message list \<Rightarrow> message"
  ALL_TOOLS :: "(string \<times> ((string \<times> string) list \<Rightarrow> tool_output)) list"
  validateClaimDetail :: "message list \<Rightarrow> tool_call \<Rightarrow> gate_result"
  validateApprovalRequest :: "message list \<Rightarrow> tool_call \<Rightarrow> gate_result"

definition systemMessage :: "env \<Rightarrow> message" where
  "systemMessage e = \<lparr>getType = ''system'', content = systemSetUpMessage e, tool_calls = None\<rparr>"

text \<open>
  \<open>callModel\<close> invokes the model on the system message followed by the history and
  returns the update \<open>{ messages: [result] }\<close>; the list below is that update.
\<close>

definition callModel :: "env \<Rightarrow> 'a state_scheme \<Rightarrow> message list" where
  "callModel e st = [model e (systemMessage e # messages st)]"

section \<open>The entry point \<open>/api/chat\<close>\<close>

text \<open>
  The module constant \<open>config = { configurable: { thread_id: "thread1" } }\<close>, and the
  options given to \<open>invoke\<close>, \<open>{ recursionLimit: 15, ...config }\<close>: the fields of
  \<open>config\<close> and the recursion limit.
\<close>

record configurable =
  thread_id :: string

record invoke_options = configurable +
  recursionLimit :: nat

definition config :: configurable where
  "config = \<lparr>thread_id = ''thread1''\<rparr>"

text \<open>
  The query of a request: the \<open>message\<close> parameter, which the handler reads, and the
  other parameters that the request may carry.
\<close>

record request =
  message :: string
  params :: "(string \<times> string) list"

definition HumanMessage :: "string \<Rightarrow> message" where
  "HumanMessage c = \<lparr>getType = ''human'', content = c, tool_calls = None\<rparr>"

text \<open>
  The failures of a run: an error thrown by the routing function, and the two failures
  of the engine, the step bound exceeded and a node or tool that is not registered.
\<close>

datatype run_error = Thrown js_error | StepBoundExceeded | InvariantViolation

text \<open>\<open>result.messages[result.messages.length - 1].content\<close>.\<close>

definition chat_response :: "'a state_scheme \<Rightarrow> run_error + string" where
  "chat_response result =
     (case lastMessage (messages result) of
        None \<Rightarrow> Inl (Thrown TypeError)
      | Some m \<Rightarrow> Inr (content m))"

text \<open>
  The handler. \<open>invoke\<close> is \<open>graph.withConfig(config).invoke\<close>: from the engine's
  store \<open>s\<close>, the input and the options it returns the final state or a failure, and
  the store after the run. A failure of \<open>invoke\<close> is a rejected promise that the
  handler does not catch.
\<close>

definition api_chat ::
  "('s \<Rightarrow> state \<Rightarrow> invoke_options \<Rightarrow> (run_error + 'r state_scheme) \<times> 's)
     \<Rightarrow> 's \<Rightarrow> request \<Rightarrow> (run_error + string) \<times> 's" where
  "api_chat invoke s req =
     (case invoke s \<lparr>messages = [HumanMessage (message req)]\<rparr>
                    \<lparr>thread_id = thread_id config, recursionLimit = 15\<rparr> of
        (Inl e, s') \<Rightarrow> (Inl e, s')
      | (Inr result, s') \<Rightarrow> (chat_response result, s'))"

section \<open>The graph engine\<close>

text \<open>
  Modelled from the spec: the conversation state that the engine runs on. Missing are
  the engine, the tool node and the checkpoint store, which belong to the graph library,
  and the state annotation (\<open>state.js\<close>); this section follows sections 3, 4 and 6 of
  the specification for them. Besides the message history the state has the iteration
  counter that bounds the steps; \<open>invoked\<close> is a log of the executor invocations,
  kept to state which tools ran.
\<close>

record conversation = state +
  iteration :: nat
  invoked :: "tool_call list"

text \<open>
  Modelled from the spec: a tool-result turn carrying a text (the tool node that builds
  such turns is missing), and the text of an executor's output or failure.
\<close>

definition tool_turn :: "string \<Rightarrow> message" where
  "tool_turn txt = \<lparr>getType = ''tool'', content = txt, tool_calls = None\<rparr>"

definition output_text :: "tool_output \<Rightarrow> string" where
  "output_text out = (case out of ToolResultPayload p \<Rightarrow> p | ToolFailure f \<Rightarrow> f)"

text \<open>
  Modelled from the spec: the dispatcher of section 4.3. It looks up the executor of the
  named tool, invokes it with the argument payload and appends a tool-result turn with
  the output or the failure description; a name that is not registered is an
  \<open>InvariantViolation\<close>.
\<close>

definition dispatch :: "env \<Rightarrow> tool_call \<Rightarrow> conversation \<Rightarrow> run_error + conversation" where
  "dispatch e tc st =
     (case map_of (ALL_TOOLS e) (name tc) of
        None \<Rightarrow> Inl InvariantViolation
      | Some executor \<Rightarrow>
          Inr (st\<lparr>messages := messages st @ [tool_turn (output_text (executor (args tc)))],
                 invoked := invoked st @ [tc]\<rparr>))"

text \<open>
  Modelled from the spec: a validation gate of section 4.2 applied to the action it
  guards (the node functions of \<open>validateClaimDetails.js\<close> and
  \<open>validateApprovalRules.js\<close> are missing). On success the action is re-emitted with the arguments the gate returns; on
  failure the tool is not called and a tool-result turn with the explanation is
  appended.
\<close>

definition gate ::
  "(message list \<Rightarrow> tool_call \<Rightarrow> gate_result) \<Rightarrow> tool_call \<Rightarrow> conversation
     \<Rightarrow> tool_call option \<times> conversation" where
  "gate validate tc st =
     (case validate (messages st) tc of
        Forward a \<Rightarrow> (Some (tc\<lparr>args := a\<rparr>), st)
      | Reject why \<Rightarrow> (None, st\<lparr>messages := messages st @ [tool_turn why]\<rparr>))"

text \<open>
  Modelled from the spec: one node working on the action that travels along its path
  (\<open>None\<close> once the action was rejected); the tool node of the graph library and the
  validation nodes are missing. The model node does not take part in a
  path: a path ends when it is back at \<open>agent\<close>.
\<close>

definition run_node ::
  "env \<Rightarrow> node_fn \<Rightarrow> tool_call option \<Rightarrow> conversation
     \<Rightarrow> run_error + (tool_call option \<times> conversation)" where
  "run_node e f pending st =
     (case pending of
        None \<Rightarrow> Inr (None, st)
      | Some tc \<Rightarrow>
          (case f of
             CallModel \<Rightarrow> Inl InvariantViolation
           | ToolNodeAllTools \<Rightarrow>
               (case dispatch e tc st of Inl err \<Rightarrow> Inl err | Inr st' \<Rightarrow> Inr (None, st'))
           | ValidateClaimDetail \<Rightarrow> Inr (gate (validateClaimDetail e) tc st)
           | ValidateApprovalRequest \<Rightarrow> Inr (gate (validateApprovalRequest e) tc st)))"

text \<open>
  Modelled from the spec: the path of one action, from the node the Router selected for
  it along the regular edges of the graph until control is back at \<open>agent\<close> (the
  engine that follows the edges is missing). The
  first argument bounds the length of the path; a node that is not registered, or that
  has not exactly one regular edge, is an \<open>InvariantViolation\<close>.
\<close>

fun exec_path ::
  "nat \<Rightarrow> env \<Rightarrow> graph \<Rightarrow> string \<Rightarrow> tool_call option \<Rightarrow> conversation
     \<Rightarrow> run_error + conversation" where
  "exec_path 0 e g n pending st = (if n = ''agent'' then Inr st else Inl InvariantViolation)"
| "exec_path (Suc k) e g n pending st =
     (if n = ''agent'' then Inr st
      else (case node_of g n of
              None \<Rightarrow> Inl InvariantViolation
            | Some f \<Rightarrow>
                (case run_node e f pending st of
                   Inl err \<Rightarrow> Inl err
                 | Inr (pending', st') \<Rightarrow>
                     (case successors g n of
                        [n'] \<Rightarrow> exec_path k e g n' pending' st'
                      | _ \<Rightarrow> Inl InvariantViolation))))"

text \<open>
  Modelled from the spec: the engine's handling of one turn, which is missing. By
  section 4.1 all targets resolved for the actions of the turn are executed, each action
  on its own target, in the order of the actions, before control returns to the
  Reasoner. A failure comes with the state reached before the failing path.
\<close>

fun exec_targets ::
  "env \<Rightarrow> graph \<Rightarrow> (string \<times> tool_call) list \<Rightarrow> conversation
     \<Rightarrow> (run_error \<times> conversation) + conversation" where
  "exec_targets e g [] st = Inr st"
| "exec_targets e g ((n, tc) # rest) st =
     (case exec_path (length (nodes g)) e g n (Some tc) st of
        Inl err \<Rightarrow> Inl (err, st)
      | Inr st' \<Rightarrow> exec_targets e g rest st')"

text \<open>The proposed actions of the latest turn.\<close>

definition proposed_actions :: "'a state_scheme \<Rightarrow> tool_call list" where
  "proposed_actions st =
     (case lastMessage (messages st) of
        None \<Rightarrow> []
      | Some m \<Rightarrow> (case tool_calls m of None \<Rightarrow> [] | Some tcs \<Rightarrow> tcs))"

text \<open>
  Modelled from the spec: the loop of section 4.4, which the missing engine drives. One
  step is a cycle: the Reasoner
  (\<open>callModel\<close>) appends its turn, the Router (\<open>shouldContinue\<close>) decides, and the
  resolved targets are executed. The first argument is the number of steps left; with
  none left the run fails with \<open>StepBoundExceeded\<close>. The result is the outcome and the
  state reached, which is what the checkpoint store holds afterwards.
\<close>

datatype outcome = Terminated | Failed run_error

fun run_loop :: "nat \<Rightarrow> env \<Rightarrow> graph \<Rightarrow> conversation \<Rightarrow> outcome \<times> conversation" where
  "run_loop 0 e g st = (Failed StepBoundExceeded, st)"
| "run_loop (Suc k) e g st =
     (let st1 = st\<lparr>messages := messages st @ callModel e st, iteration := Suc (iteration st)\<rparr>
      in case shouldContinue st1 of
           Inl err \<Rightarrow> (Failed (Thrown err), st1)
         | Inr (Node n) \<Rightarrow> (Terminated, st1)
         | Inr (Nodes ts) \<Rightarrow>
             (case exec_targets e g (zip ts (proposed_actions st1)) st1 of
                Inl (err, st2) \<Rightarrow> (Failed err, st2)
              | Inr st2 \<Rightarrow> run_loop k e g st2))"

text \<open>
  The state that a step of the loop hands to the Router: the state \<open>st1\<close> of
  \<open>run_loop\<close>, after the Reasoner's turn has been appended.
\<close>

definition reasoner_turn :: "env \<Rightarrow> conversation \<Rightarrow> conversation" where
  "reasoner_turn e st =
     st\<lparr>messages := messages st @ callModel e st, iteration := Suc (iteration st)\<rparr>"

text \<open>
  Modelled from the spec: \<open>invoke\<close> on the compiled graph with the checkpoint store of
  section 6 (\<open>builder.compile\<close> and \<open>MemorySaver\<close> of the graph library are missing). The history saved under the thread is loaded, the input messages are
  appended, the loop runs within the recursion limit, and the history reached is saved
  under the same thread, also when the run fails.
\<close>

definition graph_invoke ::
  "env \<Rightarrow> graph \<Rightarrow> (string \<rightharpoonup> message list) \<Rightarrow> state \<Rightarrow> invoke_options
     \<Rightarrow> (run_error + conversation) \<times> (string \<rightharpoonup> message list)" where
  "graph_invoke e g store input opts =
     (let prior = (case store (thread_id opts) of None \<Rightarrow> [] | Some h \<Rightarrow> h);
          st0 = \<lparr>messages = prior @ messages input, iteration = 0, invoked = []\<rparr>;
          (out, st) = run_loop (recursionLimit opts) e g st0;
          store' = store(thread_id opts \<mapsto> messages st)
      in (case out of Terminated \<Rightarrow> (Inr st, store') | Failed err \<Rightarrow> (Inl err, store')))"

section \<open>Sample data\<close>

text \<open>Concrete messages, actions, requests and collaborators, used to run the definitions.\<close>

definition AIMessage :: "string \<Rightarrow> tool_call list option \<Rightarrow> message" where
  "AIMessage c tcs = \<lparr>getType = ''ai'', content = c, tool_calls = tcs\<rparr>"

definition claim_call :: tool_call where
  "claim_call =
     \<lparr>name = ''create_or_update_claim'',
      args = [(''claimId'', ''123''), (''description'', ''car accident'')],
      call_id = Some ''call_1''\<rparr>"

definition incomplete_claim_call :: tool_call where
  "incomplete_claim_call =
     \<lparr>name = ''create_or_update_claim'', args = [(''claimId'', ''123'')],
      call_id = Some ''call_2''\<rparr>"

definition payment_call :: tool_call where
  "payment_call =
     \<lparr>name = ''approve_payment'', args = [(''amount'', ''5000'')], call_id = Some ''call_3''\<rparr>"

definition fraud_call :: tool_call where
  "fraud_call =
     \<lparr>name = ''fraud_check'', args = [(''claimId'', ''123'')], call_id = Some ''call_4''\<rparr>"

definition unknown_call :: tool_call where
  "unknown_call = \<lparr>name = ''launch_rocket'', args = [], call_id = Some ''call_5''\<rparr>"

text \<open>A claim gate that asks for a claim identifier and a description.\<close>

definition sample_claim_gate :: "message list \<Rightarrow> tool_call \<Rightarrow> gate_result" where
  "sample_claim_gate h tc =
     (if map_of (args tc) ''claimId'' = None then Reject ''claimId is missing''
      else if map_of (args tc) ''description'' = None then Reject ''description is missing''
      else Forward (args tc))"

text \<open>An approval gate that asks for a fraud-check result earlier in the history.\<close>

definition sample_approval_gate :: "message list \<Rightarrow> tool_call \<Rightarrow> gate_result" where
  "sample_approval_gate h tc =
     (if list_ex (\<lambda>m. getType m = ''tool'' \<and> content m = ''no fraud found'') h
      then Forward (args tc) else Reject ''fraud check missing'')"

definition sample_tools :: "(string \<times> ((string \<times> string) list \<Rightarrow> tool_output)) list" where
  "sample_tools =
     [(''user_details'', \<lambda>a. ToolResultPayload ''user found''),
      (''fraud_check'', \<lambda>a. ToolResultPayload ''no fraud found''),
      (''create_or_update_claim'', \<lambda>a. ToolResultPayload ''claim updated''),
      (''approve_payment'', \<lambda>a. ToolResultPayload ''payment approved''),
      (''send_confirmation_email'', \<lambda>a. ToolFailure ''mail server unreachable'')]"

text \<open>
  A Reasoner that proposes the claim update after a user message and answers in plain
  text otherwise.
\<close>

definition scenario_model :: "message list \<Rightarrow> message" where
  "scenario_model h =
     (case lastMessage h of
        None \<Rightarrow> AIMessage ''How can I help?'' None
      | Some m \<Rightarrow>
          if getType m = ''human'' then AIMessage [] (Some [claim_call])
          else AIMessage ''Your claim 123 has been updated.'' (Some []))"

definition scenario_env :: env where
  "scenario_env =
     \<lparr>systemSetUpMessage = ''You are a claims assistant.'',
      model = scenario_model,
      ALL_TOOLS = sample_tools,
      validateClaimDetail = sample_claim_gate,
      validateApprovalRequest = sample_approval_gate\<rparr>"


text \<open>
  An engine that runs no graph: it answers with the thread identifier it was invoked
  with, which makes the options of the call visible in the response.
\<close>

definition probe_invoke :: "unit \<Rightarrow> state \<Rightarrow> invoke_options \<Rightarrow> (run_error + state) \<times> unit" where
  "probe_invoke s input opts =
     (Inr \<lparr>messages = messages input @ [AIMessage (thread_id opts) None]\<rparr>, s)"

definition alice_request :: request where
  "alice_request = \<lparr>message = ''hello'', params = [(''thread_id'', ''alice'')]\<rparr>"

definition bob_request :: request where
  "bob_request = \<lparr>message = ''hello'', params = [(''thread_id'', ''bob'')]\<rparr>"

definition sample_state :: conversation where
  "sample_state =
     \<lparr>messages = [HumanMessage ''I was in a car accident, my claim ID is 123''],
      iteration = 0, invoked = []\<rparr>"

text \<open>The sample state after a fraud check has been dispatched.\<close>

definition checked_state :: conversation where
  "checked_state =
     sample_state\<lparr>messages := messages sample_state @ [tool_turn ''no fraud found''],
                  invoked := [fraud_call]\<rparr>"

text \<open>A turn that proposes three actions at once, and a plain final answer.\<close>

definition mixed_turn :: message where
  "mixed_turn = AIMessage [] (Some [claim_call, fraud_call, payment_call])"

definition mixed_state :: state where
  "mixed_state = \<lparr>messages = [HumanMessage ''approve my claim 123'', mixed_turn]\<rparr>"

definition final_turn :: message where
  "final_turn = AIMessage ''Your claim 123 has been updated.'' (Some [])"

definition final_state :: state where
  "final_state = \<lparr>messages = [HumanMessage ''thanks'', final_turn]\<rparr>"

text \<open>An engine that appends the plain final answer to its input and stops.\<close>

definition answering_invoke ::
  "unit \<Rightarrow> state \<Rightarrow> invoke_options \<Rightarrow> (run_error + state) \<times> unit" where
  "answering_invoke s input opts = (Inr \<lparr>messages = messages input @ [final_turn]\<rparr>, s)"

definition thanks_request :: request where
  "thanks_request = \<lparr>message = ''thanks'', params = []\<rparr>"

section \<open>Basic facts\<close>

lemma lastMessage_snoc: "lastMessage (h @ [t]) = Some t"
  by (simp add: lastMessage_def)

lemma builder_nodes:
  "nodes builder =
     [(''agent'', CallModel), (''tools'', ToolNodeAllTools),
      (''prepare_claim_detail'', ValidateClaimDetail),
      (''execute_approve_payment'', ValidateApprovalRequest)]"
  by (simp add: builder_def addNode_def addEdge_def addConditionalEdges_def StateGraph_def)

lemma builder_edges:
  "edges builder =
     [(START, ''agent''), (''tools'', ''agent''), (''prepare_claim_detail'', ''tools''),
      (''execute_approve_payment'', ''tools'')]"
  by (simp add: builder_def addNode_def addEdge_def addConditionalEdges_def StateGraph_def)

lemma builder_conditionalEdges:
  "conditionalEdges builder =
     [(''agent'', [''tools'', ''prepare_claim_detail'', ''execute_approve_payment'', END])]"
  by (simp add: builder_def addNode_def addEdge_def addConditionalEdges_def StateGraph_def)

lemma node_of_builder_simps:
  "node_of builder ''agent'' = Some CallModel"
  "node_of builder ''tools'' = Some ToolNodeAllTools"
  "node_of builder ''prepare_claim_detail'' = Some ValidateClaimDetail"
  "node_of builder ''execute_approve_payment'' = Some ValidateApprovalRequest"
  by (simp_all add: node_of_def builder_nodes)

lemma successors_builder_simps:
  "successors builder ''tools'' = [''agent'']"
  "successors builder ''prepare_claim_detail'' = [''tools'']"
  "successors builder ''execute_approve_payment'' = [''tools'']"
  "successors builder ''agent'' = []"
  by (simp_all add: successors_def builder_edges START_def)

lemma node_of_builder_cases:
  assumes "node_of builder n = Some f"
  shows "(n = ''agent'' \<and> f = CallModel) \<or> (n = ''tools'' \<and> f = ToolNodeAllTools) \<or>
         (n = ''prepare_claim_detail'' \<and> f = ValidateClaimDetail) \<or>
         (n = ''execute_approve_payment'' \<and> f = ValidateApprovalRequest)"
  using assms by (auto simp: node_of_def builder_nodes split: if_splits)

lemma shouldContinue_Nodes:
  assumes "shouldContinue st = Inr (Nodes ts)"
  shows "ts = map route_tool_call (proposed_actions st) \<and> proposed_actions st \<noteq> []"
  using assms
  by (auto simp: shouldContinue_def proposed_actions_def no_length_def
           split: option.splits if_splits)

lemma route_tool_call_cases:
  "route_tool_call tc = ''tools'' \<or> route_tool_call tc = ''prepare_claim_detail'' \<or>
   route_tool_call tc = ''execute_approve_payment''"
  by (simp add: route_tool_call_def)


section \<open>The paths of the graph\<close>

lemma length_nodes_builder: "length (nodes builder) = 4"
  by (simp add: builder_nodes)

lemma exec_path_agent: "exec_path k e g ''agent'' pending st = Inr st"
  by (cases k) simp_all

lemma exec_path_tools:
  "exec_path (Suc k) e builder ''tools'' (Some tc) st = dispatch e tc st"
  by (simp add: node_of_builder_simps successors_builder_simps run_node_def exec_path_agent
           split: sum.splits)

lemma exec_path_tools_None:
  "exec_path (Suc k) e builder ''tools'' None st = Inr st"
  by (simp add: node_of_builder_simps successors_builder_simps run_node_def exec_path_agent)

lemma exec_path_gate_step:
  assumes "node_of builder n = Some f" and "successors builder n = [''tools'']"
    and "run_node e f (Some tc) st = Inr (p, st')"
  shows "exec_path (Suc (Suc k)) e builder n (Some tc) st =
           (if n = ''agent'' then Inr st else exec_path (Suc k) e builder ''tools'' p st')"
  using assms by simp

lemma exec_path_claim:
  "exec_path (Suc (Suc k)) e builder ''prepare_claim_detail'' (Some tc) st =
     (case validateClaimDetail e (messages st) tc of
        Forward a \<Rightarrow> dispatch e (tc\<lparr>args := a\<rparr>) st
      | Reject why \<Rightarrow> Inr (st\<lparr>messages := messages st @ [tool_turn why]\<rparr>))"
proof (cases "validateClaimDetail e (messages st) tc")
  case (Forward a)
  then have "run_node e ValidateClaimDetail (Some tc) st = Inr (Some (tc\<lparr>args := a\<rparr>), st)"
    by (simp add: run_node_def gate_def)
  from exec_path_gate_step[OF node_of_builder_simps(3) successors_builder_simps(2) this]
  show ?thesis using Forward by (simp add: exec_path_tools del: exec_path.simps)
next
  case (Reject why)
  then have "run_node e ValidateClaimDetail (Some tc) st
               = Inr (None, st\<lparr>messages := messages st @ [tool_turn why]\<rparr>)"
    by (simp add: run_node_def gate_def)
  from exec_path_gate_step[OF node_of_builder_simps(3) successors_builder_simps(2) this]
  show ?thesis using Reject by (simp add: exec_path_tools_None del: exec_path.simps)
qed

lemma exec_path_approval:
  "exec_path (Suc (Suc k)) e builder ''execute_approve_payment'' (Some tc) st =
     (case validateApprovalRequest e (messages st) tc of
        Forward a \<Rightarrow> dispatch e (tc\<lparr>args := a\<rparr>) st
      | Reject why \<Rightarrow> Inr (st\<lparr>messages := messages st @ [tool_turn why]\<rparr>))"
proof (cases "validateApprovalRequest e (messages st) tc")
  case (Forward a)
  then have "run_node e ValidateApprovalRequest (Some tc) st = Inr (Some (tc\<lparr>args := a\<rparr>), st)"
    by (simp add: run_node_def gate_def)
  from exec_path_gate_step[OF node_of_builder_simps(4) successors_builder_simps(3) this]
  show ?thesis using Forward by (simp add: exec_path_tools del: exec_path.simps)
next
  case (Reject why)
  then have "run_node e ValidateApprovalRequest (Some tc) st
               = Inr (None, st\<lparr>messages := messages st @ [tool_turn why]\<rparr>)"
    by (simp add: run_node_def gate_def)
  from exec_path_gate_step[OF node_of_builder_simps(4) successors_builder_simps(3) this]
  show ?thesis using Reject by (simp add: exec_path_tools_None del: exec_path.simps)
qed

text \<open>The path of one action from the target the Router selects for it.\<close>

lemma exec_path_routed:
  "exec_path (length (nodes builder)) e builder (route_tool_call tc) (Some tc) st =
     (if name tc = ''create_or_update_claim'' then
        (case validateClaimDetail e (messages st) tc of
           Forward a \<Rightarrow> dispatch e (tc\<lparr>args := a\<rparr>) st
         | Reject why \<Rightarrow> Inr (st\<lparr>messages := messages st @ [tool_turn why]\<rparr>))
      else if name tc = ''approve_payment'' then
        (case validateApprovalRequest e (messages st) tc of
           Forward a \<Rightarrow> dispatch e (tc\<lparr>args := a\<rparr>) st
         | Reject why \<Rightarrow> Inr (st\<lparr>messages := messages st @ [tool_turn why]\<rparr>))
      else dispatch e tc st)"
proof -
  have n: "length (nodes builder) = Suc (Suc (Suc (Suc 0)))"
    by (simp add: builder_nodes)
  consider (claim) "name tc = ''create_or_update_claim''"
    | (approval) "name tc \<noteq> ''create_or_update_claim''" "name tc = ''approve_payment''"
    | (other) "name tc \<noteq> ''create_or_update_claim''" "name tc \<noteq> ''approve_payment''"
    by blast
  then show ?thesis
  proof cases
    case claim
    then have "route_tool_call tc = ''prepare_claim_detail''"
      by (simp add: route_tool_call_def)
    then show ?thesis
      using claim by (simp only: n exec_path_claim) simp
  next
    case approval
    then have "route_tool_call tc = ''execute_approve_payment''"
      by (simp add: route_tool_call_def)
    then show ?thesis
      using approval by (simp only: n exec_path_approval) simp
  next
    case other
    then have "route_tool_call tc = ''tools''"
      by (simp add: route_tool_call_def)
    then show ?thesis
      using other by (simp only: n exec_path_tools) simp
  qed
qed

section \<open>Invariants of a run\<close>

lemma dispatch_Inr:
  assumes "dispatch e tc st = Inr st'"
  shows "invoked st' = invoked st @ [tc]"
    and "messages st' = messages st @ [tool_turn (output_text (the (map_of (ALL_TOOLS e) (name tc)) (args tc)))]"
    and "iteration st' = iteration st"
  using assms by (auto simp: dispatch_def split: option.splits)

lemma dispatch_Inl:
  assumes "dispatch e tc st = Inl err"
  shows "err = InvariantViolation \<and> map_of (ALL_TOOLS e) (name tc) = None"
  using assms by (auto simp: dispatch_def split: option.splits)

lemma dispatch_registered:
  assumes "map_of (ALL_TOOLS e) (name tc) \<noteq> None"
  shows "\<exists>st'. dispatch e tc st = Inr st'"
  using assms by (auto simp: dispatch_def split: option.splits)

text \<open>What the path of one routed action does to the state.\<close>

lemma routed_step:
  assumes "exec_path (length (nodes builder)) e builder (route_tool_call tc) (Some tc) st = Inr st'"
  shows "iteration st' = iteration st \<and> (\<exists>m. messages st' = messages st @ [m]) \<and>
         (invoked st' = invoked st \<or>
          (\<exists>c. invoked st' = invoked st @ [c] \<and> name c = name tc \<and>
               (name tc = ''create_or_update_claim'' \<longrightarrow>
                  (\<exists>a. validateClaimDetail e (messages st) tc = Forward a \<and> c = tc\<lparr>args := a\<rparr>))))"
proof -
  note r = assms[unfolded exec_path_routed]
  consider (claim) "name tc = ''create_or_update_claim''"
    | (approval) "name tc \<noteq> ''create_or_update_claim''" "name tc = ''approve_payment''"
    | (other) "name tc \<noteq> ''create_or_update_claim''" "name tc \<noteq> ''approve_payment''"
    by blast
  then show ?thesis
  proof cases
    case claim
    show ?thesis
    proof (cases "validateClaimDetail e (messages st) tc")
      case (Forward a)
      with r claim have "dispatch e (tc\<lparr>args := a\<rparr>) st = Inr st'" by simp
      from dispatch_Inr[OF this] Forward claim show ?thesis by simp
    next
      case (Reject why)
      with r claim have "st' = st\<lparr>messages := messages st @ [tool_turn why]\<rparr>" by simp
      then show ?thesis by simp
    qed
  next
    case approval
    show ?thesis
    proof (cases "validateApprovalRequest e (messages st) tc")
      case (Forward a)
      with r approval have "dispatch e (tc\<lparr>args := a\<rparr>) st = Inr st'" by simp
      from dispatch_Inr[OF this] Forward approval show ?thesis by simp
    next
      case (Reject why)
      with r approval have "st' = st\<lparr>messages := messages st @ [tool_turn why]\<rparr>" by simp
      then show ?thesis by simp
    qed
  next
    case other
    with r have "dispatch e tc st = Inr st'" by simp
    from dispatch_Inr[OF this] other show ?thesis by simp
  qed
qed

lemma routed_fail:
  assumes "exec_path (length (nodes builder)) e builder (route_tool_call tc) (Some tc) st = Inl err"
  shows "err = InvariantViolation \<and> map_of (ALL_TOOLS e) (name tc) = None"
  using assms unfolding exec_path_routed
  by (auto split: if_splits gate_result.splits dest: dispatch_Inl)


text \<open>The state that a batch of routed actions ends in, also when a path fails.\<close>

lemma exec_targets_invariant:
  assumes "(case exec_targets e builder (zip (map route_tool_call tcs) tcs) st of
              Inl (err, s) \<Rightarrow> s | Inr s \<Rightarrow> s) = st'"
  shows "iteration st' = iteration st \<and> (\<exists>ext. messages st' = messages st @ ext) \<and>
         (\<exists>new. invoked st' = invoked st @ new \<and>
            (\<forall>c \<in> set new. name c = ''create_or_update_claim'' \<longrightarrow>
               (\<exists>tc ext a. name tc = ''create_or_update_claim'' \<and>
                  validateClaimDetail e (messages st @ ext) tc = Forward a \<and>
                  c = tc\<lparr>args := a\<rparr>)))"
  using assms
proof (induction tcs arbitrary: st)
  case Nil
  then show ?case by simp
next
  case (Cons tc tcs)
  show ?case
  proof (cases "exec_path (length (nodes builder)) e builder (route_tool_call tc) (Some tc) st")
    case (Inl err)
    with Cons.prems have "st' = st" by simp
    then show ?thesis by simp
  next
    case (Inr s1)
    with Cons.prems have
      "(case exec_targets e builder (zip (map route_tool_call tcs) tcs) s1 of
          Inl (err, s) \<Rightarrow> s | Inr s \<Rightarrow> s) = st'"
      by simp
    from Cons.IH[OF this] obtain ext new where
      it: "iteration st' = iteration s1" and ms: "messages st' = messages s1 @ ext"
      and inv: "invoked st' = invoked s1 @ new"
      and ok: "\<forall>c \<in> set new. name c = ''create_or_update_claim'' \<longrightarrow>
               (\<exists>tc ext a. name tc = ''create_or_update_claim'' \<and>
                  validateClaimDetail e (messages s1 @ ext) tc = Forward a \<and>
                  c = tc\<lparr>args := a\<rparr>)"
      by blast
    from routed_step[OF Inr] obtain m where
      it1: "iteration s1 = iteration st" and ms1: "messages s1 = messages st @ [m]"
      and inv1: "invoked s1 = invoked st \<or>
          (\<exists>c. invoked s1 = invoked st @ [c] \<and> name c = name tc \<and>
               (name tc = ''create_or_update_claim'' \<longrightarrow>
                  (\<exists>a. validateClaimDetail e (messages st) tc = Forward a \<and> c = tc\<lparr>args := a\<rparr>)))"
      by blast
    have ok': "\<forall>c \<in> set new. name c = ''create_or_update_claim'' \<longrightarrow>
               (\<exists>tc ext a. name tc = ''create_or_update_claim'' \<and>
                  validateClaimDetail e (messages st @ ext) tc = Forward a \<and>
                  c = tc\<lparr>args := a\<rparr>)"
    proof (intro ballI impI)
      fix c assume "c \<in> set new" "name c = ''create_or_update_claim''"
      with ok obtain tc' ext' a where
        "name tc' = ''create_or_update_claim''"
        "validateClaimDetail e (messages s1 @ ext') tc' = Forward a" "c = tc'\<lparr>args := a\<rparr>"
        by blast
      then have "name tc' = ''create_or_update_claim'' \<and>
                 validateClaimDetail e (messages st @ ([m] @ ext')) tc' = Forward a \<and>
                 c = tc'\<lparr>args := a\<rparr>"
        using ms1 by simp
      then show "\<exists>tc ext a. name tc = ''create_or_update_claim'' \<and>
                  validateClaimDetail e (messages st @ ext) tc = Forward a \<and> c = tc\<lparr>args := a\<rparr>"
        by blast
    qed
    from inv1 show ?thesis
    proof
      assume "invoked s1 = invoked st"
      with it it1 ms ms1 inv ok' show ?thesis by auto
    next
      assume "\<exists>c. invoked s1 = invoked st @ [c] \<and> name c = name tc \<and>
               (name tc = ''create_or_update_claim'' \<longrightarrow>
                  (\<exists>a. validateClaimDetail e (messages st) tc = Forward a \<and> c = tc\<lparr>args := a\<rparr>))"
      then obtain c0 where c0: "invoked s1 = invoked st @ [c0]" "name c0 = name tc"
        "name tc = ''create_or_update_claim'' \<longrightarrow>
                  (\<exists>a. validateClaimDetail e (messages st) tc = Forward a \<and> c0 = tc\<lparr>args := a\<rparr>)"
        by blast
      have "name c0 = ''create_or_update_claim'' \<longrightarrow>
               (\<exists>tc ext a. name tc = ''create_or_update_claim'' \<and>
                  validateClaimDetail e (messages st @ ext) tc = Forward a \<and>
                  c0 = tc\<lparr>args := a\<rparr>)"
      proof
        assume "name c0 = ''create_or_update_claim''"
        with c0 obtain a where "name tc = ''create_or_update_claim'' \<and>
          validateClaimDetail e (messages st @ []) tc = Forward a \<and> c0 = tc\<lparr>args := a\<rparr>"
          by auto
        then show "\<exists>tc ext a. name tc = ''create_or_update_claim'' \<and>
                  validateClaimDetail e (messages st @ ext) tc = Forward a \<and> c0 = tc\<lparr>args := a\<rparr>"
          by blast
      qed
      with ok' have "\<forall>c \<in> set (c0 # new). name c = ''create_or_update_claim'' \<longrightarrow>
               (\<exists>tc ext a. name tc = ''create_or_update_claim'' \<and>
                  validateClaimDetail e (messages st @ ext) tc = Forward a \<and>
                  c = tc\<lparr>args := a\<rparr>)"
        by simp
      moreover have "invoked st' = invoked st @ (c0 # new)" using inv c0 by simp
      moreover have "iteration st' = iteration st" using it it1 by simp
      moreover have "\<exists>ext. messages st' = messages st @ ext" using ms ms1 by simp
      ultimately show ?thesis by blast
    qed
  qed
qed

lemma exec_targets_error:
  assumes "exec_targets e builder (zip (map route_tool_call tcs) tcs) st = Inl (err, s)"
  shows "err = InvariantViolation"
  using assms
proof (induction tcs arbitrary: st)
  case Nil
  then show ?case by simp
next
  case (Cons tc tcs)
  then show ?case
    by (auto split: sum.splits dest: routed_fail)
qed


text \<open>One step of the loop, by the decision of the Router.\<close>

lemma run_loop_Suc:
  "run_loop (Suc k) e g st =
     (let st1 = st\<lparr>messages := messages st @ callModel e st, iteration := Suc (iteration st)\<rparr>
      in case shouldContinue st1 of
           Inl err \<Rightarrow> (Failed (Thrown err), st1)
         | Inr (Node n) \<Rightarrow> (Terminated, st1)
         | Inr (Nodes ts) \<Rightarrow>
             (case exec_targets e g (zip (map route_tool_call (proposed_actions st1))
                                         (proposed_actions st1)) st1 of
                Inl (err, st2) \<Rightarrow> (Failed err, st2)
              | Inr st2 \<Rightarrow> run_loop k e g st2))"
  by (auto simp: Let_def split: sum.splits route.splits dest: shouldContinue_Nodes)

lemma run_loop_invariant:
  assumes "run_loop k e builder st = (out, st')"
  shows "iteration st' \<le> iteration st + k \<and>
         (out = Failed StepBoundExceeded \<longrightarrow> iteration st' = iteration st + k) \<and>
         (\<exists>ext. messages st' = messages st @ ext) \<and>
         (\<exists>new. invoked st' = invoked st @ new \<and>
            (\<forall>c \<in> set new. name c = ''create_or_update_claim'' \<longrightarrow>
               (\<exists>tc ext a. name tc = ''create_or_update_claim'' \<and>
                  validateClaimDetail e (messages st @ ext) tc = Forward a \<and>
                  c = tc\<lparr>args := a\<rparr>)))"
  using assms
proof (induction k arbitrary: st)
  case 0
  then show ?case by auto
next
  case (Suc k)
  define st1 where
    "st1 = st\<lparr>messages := messages st @ callModel e st, iteration := Suc (iteration st)\<rparr>"
  have st1: "iteration st1 = Suc (iteration st)" "invoked st1 = invoked st"
    "messages st1 = messages st @ callModel e st"
    by (simp_all add: st1_def)
  note step = Suc.prems[unfolded run_loop_Suc, folded st1_def, unfolded Let_def]
  show ?case
  proof (cases "shouldContinue st1")
    case (Inl err)
    with step have "out = Failed (Thrown err)" "st' = st1" by simp_all
    with st1 show ?thesis by auto
  next
    case (Inr r)
    show ?thesis
    proof (cases r)
      case (Node n)
      with Inr step have "out = Terminated" "st' = st1" by simp_all
      with st1 show ?thesis by auto
    next
      case (Nodes ts)
      let ?x = "exec_targets e builder (zip (map route_tool_call (proposed_actions st1))
                                         (proposed_actions st1)) st1"
      define s2 where "s2 = (case ?x of Inl (err, s) \<Rightarrow> s | Inr s \<Rightarrow> s)"
      from exec_targets_invariant[OF s2_def[symmetric]] obtain ext2 new2 where
        it2: "iteration s2 = iteration st1" and ms2: "messages s2 = messages st1 @ ext2"
        and inv2: "invoked s2 = invoked st1 @ new2"
        and ok2: "\<forall>c \<in> set new2. name c = ''create_or_update_claim'' \<longrightarrow>
               (\<exists>tc ext a. name tc = ''create_or_update_claim'' \<and>
                  validateClaimDetail e (messages st1 @ ext) tc = Forward a \<and>
                  c = tc\<lparr>args := a\<rparr>)"
        by blast
      have ok2': "\<forall>c \<in> set new2. name c = ''create_or_update_claim'' \<longrightarrow>
               (\<exists>tc ext a. name tc = ''create_or_update_claim'' \<and>
                  validateClaimDetail e (messages st @ ext) tc = Forward a \<and>
                  c = tc\<lparr>args := a\<rparr>)"
      proof (intro ballI impI)
        fix c assume "c \<in> set new2" "name c = ''create_or_update_claim''"
        with ok2 obtain tc' ext' a where
          "name tc' = ''create_or_update_claim''"
          "validateClaimDetail e (messages st1 @ ext') tc' = Forward a" "c = tc'\<lparr>args := a\<rparr>"
          by blast
        then have "name tc' = ''create_or_update_claim'' \<and>
                 validateClaimDetail e (messages st @ (callModel e st @ ext')) tc' = Forward a \<and>
                 c = tc'\<lparr>args := a\<rparr>"
          using st1 by simp
        then show "\<exists>tc ext a. name tc = ''create_or_update_claim'' \<and>
                  validateClaimDetail e (messages st @ ext) tc = Forward a \<and> c = tc\<lparr>args := a\<rparr>"
          by blast
      qed
      show ?thesis
      proof (cases ?x)
        case (Inl p)
        obtain err s where p: "p = (err, s)" by (cases p)
        with Inl have "s2 = s" by (simp add: s2_def)
        moreover from Inl p have "err = InvariantViolation" by (auto dest: exec_targets_error)
        moreover from step Inr Nodes Inl p have "out = Failed err" "st' = s" by simp_all
        ultimately have "out \<noteq> Failed StepBoundExceeded" "st' = s2" by simp_all
        with it2 ms2 inv2 ok2' st1 show ?thesis by auto
      next
        case (Inr s)
        then have s: "s2 = s" by (simp add: s2_def)
        from step \<open>shouldContinue st1 = Inr r\<close> Nodes Inr
        have "run_loop k e builder s2 = (out, st')" by (simp add: s)
        from Suc.IH[OF this] obtain ext new where
          a: "iteration st' \<le> iteration s2 + k"
          and b: "out = Failed StepBoundExceeded \<longrightarrow> iteration st' = iteration s2 + k"
          and c: "messages st' = messages s2 @ ext"
          and d: "invoked st' = invoked s2 @ new"
          and ok: "\<forall>c \<in> set new. name c = ''create_or_update_claim'' \<longrightarrow>
               (\<exists>tc ext a. name tc = ''create_or_update_claim'' \<and>
                  validateClaimDetail e (messages s2 @ ext) tc = Forward a \<and>
                  c = tc\<lparr>args := a\<rparr>)"
          by blast
        have ok': "\<forall>c \<in> set new. name c = ''create_or_update_claim'' \<longrightarrow>
               (\<exists>tc ext a. name tc = ''create_or_update_claim'' \<and>
                  validateClaimDetail e (messages st @ ext) tc = Forward a \<and>
                  c = tc\<lparr>args := a\<rparr>)"
        proof (intro ballI impI)
          fix c assume "c \<in> set new" "name c = ''create_or_update_claim''"
          with ok obtain tc' ext' a where
            "name tc' = ''create_or_update_claim''"
            "validateClaimDetail e (messages s2 @ ext') tc' = Forward a" "c = tc'\<lparr>args := a\<rparr>"
            by blast
          then have "name tc' = ''create_or_update_claim'' \<and>
                 validateClaimDetail e (messages st @ (callModel e st @ ext2 @ ext')) tc' = Forward a \<and>
                 c = tc'\<lparr>args := a\<rparr>"
            using st1 ms2 by simp
          then show "\<exists>tc ext a. name tc = ''create_or_update_claim'' \<and>
                  validateClaimDetail e (messages st @ ext) tc = Forward a \<and> c = tc\<lparr>args := a\<rparr>"
            by blast
        qed
        have "\<forall>c \<in> set (new2 @ new). name c = ''create_or_update_claim'' \<longrightarrow>
               (\<exists>tc ext a. name tc = ''create_or_update_claim'' \<and>
                  validateClaimDetail e (messages st @ ext) tc = Forward a \<and>
                  c = tc\<lparr>args := a\<rparr>)"
          using ok' ok2' by auto
        moreover have "invoked st' = invoked st @ (new2 @ new)" using d inv2 st1 by simp
        moreover have "\<exists>ext. messages st' = messages st @ ext" using c ms2 st1 by simp
        moreover have "iteration st' \<le> iteration st + Suc k" using a it2 st1 by simp
        moreover have "out = Failed StepBoundExceeded \<longrightarrow> iteration st' = iteration st + Suc k"
          using b it2 st1 by simp
        ultimately show ?thesis by blast
      qed
    qed
  qed
qed


section \<open>The invocations of a run\<close>


lemma exec_targets_append:
  "exec_targets e g (xs @ ys) st =
     (case exec_targets e g xs st of Inl x \<Rightarrow> Inl x | Inr mid \<Rightarrow> exec_targets e g ys mid)"
proof (induction xs arbitrary: st)
  case Nil
  show ?case by simp
next
  case (Cons x xs)
  obtain n tc where x: "x = (n, tc)" by (cases x)
  show ?case
    by (cases "exec_path (length (nodes g)) e g n (Some tc) st") (simp_all add: x Cons.IH)
qed

lemma routed_append:
  "zip (map route_tool_call (pre @ post)) (pre @ post) =
     zip (map route_tool_call pre) pre @ zip (map route_tool_call post) post"
  by simp

text \<open>
  The invocations that a batch of routed actions adds to the log, one by one: an
  invocation named as the claim tool was made for an action of the batch, from the state
  reached after the actions before it, on whose history the validation forwarded it.
\<close>

lemma exec_targets_claim_invocations:
  assumes "(case exec_targets e builder (zip (map route_tool_call tcs) tcs) st of
              Inl (err, s) \<Rightarrow> s | Inr s \<Rightarrow> s) = st'"
  shows "\<exists>new. invoked st' = invoked st @ new \<and>
           (\<forall>j < length new. name (new ! j) = ''create_or_update_claim'' \<longrightarrow>
              (\<exists>pre tc post mid a.
                 tcs = pre @ tc # post \<and>
                 exec_targets e builder (zip (map route_tool_call pre) pre) st = Inr mid \<and>
                 invoked mid = invoked st @ take j new \<and>
                 validateClaimDetail e (messages mid) tc = Forward a \<and>
                 new ! j = tc\<lparr>args := a\<rparr>))"
  using assms
proof (induction tcs arbitrary: st)
  case Nil
  then show ?case by simp
next
  case (Cons tc0 tcs)
  show ?case
  proof (cases "exec_path (length (nodes builder)) e builder (route_tool_call tc0) (Some tc0) st")
    case (Inl err)
    with Cons.prems have "st' = st" by simp
    then show ?thesis by simp
  next
    case (Inr s1)
    with Cons.prems have
      "(case exec_targets e builder (zip (map route_tool_call tcs) tcs) s1 of
          Inl (err, s) \<Rightarrow> s | Inr s \<Rightarrow> s) = st'"
      by simp
    from Cons.IH[OF this] obtain new1 where
      inv: "invoked st' = invoked s1 @ new1"
      and ok: "\<forall>j < length new1. name (new1 ! j) = ''create_or_update_claim'' \<longrightarrow>
              (\<exists>pre tc post mid a.
                 tcs = pre @ tc # post \<and>
                 exec_targets e builder (zip (map route_tool_call pre) pre) s1 = Inr mid \<and>
                 invoked mid = invoked s1 @ take j new1 \<and>
                 validateClaimDetail e (messages mid) tc = Forward a \<and>
                 new1 ! j = tc\<lparr>args := a\<rparr>)"
      by blast
    from routed_step[OF Inr] have
      inv1: "invoked s1 = invoked st \<or>
          (\<exists>c. invoked s1 = invoked st @ [c] \<and> name c = name tc0 \<and>
               (name tc0 = ''create_or_update_claim'' \<longrightarrow>
                  (\<exists>a. validateClaimDetail e (messages st) tc0 = Forward a \<and> c = tc0\<lparr>args := a\<rparr>)))"
      by blast
    then obtain new0 where n0: "invoked s1 = invoked st @ new0"
      and first: "new0 = [] \<or> (\<exists>c. new0 = [c] \<and> name c = name tc0 \<and>
               (name tc0 = ''create_or_update_claim'' \<longrightarrow>
                  (\<exists>a. validateClaimDetail e (messages st) tc0 = Forward a \<and> c = tc0\<lparr>args := a\<rparr>)))"
      by auto
    have shift: "\<And>pre mid. exec_targets e builder (zip (map route_tool_call pre) pre) s1 = Inr mid
        \<Longrightarrow> exec_targets e builder (zip (map route_tool_call (tc0 # pre)) (tc0 # pre)) st = Inr mid"
      using Inr by simp
    have "\<forall>j < length (new0 @ new1). name ((new0 @ new1) ! j) = ''create_or_update_claim'' \<longrightarrow>
              (\<exists>pre tc post mid a.
                 tc0 # tcs = pre @ tc # post \<and>
                 exec_targets e builder (zip (map route_tool_call pre) pre) st = Inr mid \<and>
                 invoked mid = invoked st @ take j (new0 @ new1) \<and>
                 validateClaimDetail e (messages mid) tc = Forward a \<and>
                 (new0 @ new1) ! j = tc\<lparr>args := a\<rparr>)"
    proof (intro allI impI)
      fix j assume j: "j < length (new0 @ new1)"
        and nm: "name ((new0 @ new1) ! j) = ''create_or_update_claim''"
      show "\<exists>pre tc post mid a.
                 tc0 # tcs = pre @ tc # post \<and>
                 exec_targets e builder (zip (map route_tool_call pre) pre) st = Inr mid \<and>
                 invoked mid = invoked st @ take j (new0 @ new1) \<and>
                 validateClaimDetail e (messages mid) tc = Forward a \<and>
                 (new0 @ new1) ! j = tc\<lparr>args := a\<rparr>"
      proof (cases "j < length new0")
        case True
        with first obtain c where c: "new0 = [c]" "name c = name tc0"
          "name tc0 = ''create_or_update_claim'' \<longrightarrow>
                  (\<exists>a. validateClaimDetail e (messages st) tc0 = Forward a \<and> c = tc0\<lparr>args := a\<rparr>)"
          by auto
        with True have j0: "j = 0" by simp
        with nm c obtain a where
          a: "validateClaimDetail e (messages st) tc0 = Forward a" "c = tc0\<lparr>args := a\<rparr>"
          by auto
        have "tc0 # tcs = [] @ tc0 # tcs \<and>
              exec_targets e builder (zip (map route_tool_call []) []) st = Inr st \<and>
              invoked st = invoked st @ take j (new0 @ new1) \<and>
              validateClaimDetail e (messages st) tc0 = Forward a \<and>
              (new0 @ new1) ! j = tc0\<lparr>args := a\<rparr>"
          using a c j0 by simp
        then show ?thesis by blast
      next
        case False
        define j' where "j' = j - length new0"
        from False j have j': "j' < length new1" "j = length new0 + j'"
          by (simp_all add: j'_def)
        have nth: "(new0 @ new1) ! j = new1 ! j'" using j' by (simp add: nth_append)
        with nm ok j' obtain pre tc post mid a where
          p: "tcs = pre @ tc # post"
          "exec_targets e builder (zip (map route_tool_call pre) pre) s1 = Inr mid"
          "invoked mid = invoked s1 @ take j' new1"
          "validateClaimDetail e (messages mid) tc = Forward a"
          "new1 ! j' = tc\<lparr>args := a\<rparr>"
          by metis
        have "tc0 # tcs = (tc0 # pre) @ tc # post \<and>
              exec_targets e builder (zip (map route_tool_call (tc0 # pre)) (tc0 # pre)) st = Inr mid \<and>
              invoked mid = invoked st @ take j (new0 @ new1) \<and>
              validateClaimDetail e (messages mid) tc = Forward a \<and>
              (new0 @ new1) ! j = tc\<lparr>args := a\<rparr>"
          using p shift[OF p(2)] n0 nth j' by simp
        then show ?thesis by blast
      qed
    qed
    moreover have "invoked st' = invoked st @ (new0 @ new1)" using inv n0 by simp
    ultimately show ?thesis by blast
  qed
qed

lemma run_loop_step:
  "run_loop (Suc k) e g st =
     (case shouldContinue (reasoner_turn e st) of
        Inl err \<Rightarrow> (Failed (Thrown err), reasoner_turn e st)
      | Inr (Node n) \<Rightarrow> (Terminated, reasoner_turn e st)
      | Inr (Nodes ts) \<Rightarrow>
          (case exec_targets e g
                  (zip (map route_tool_call (proposed_actions (reasoner_turn e st)))
                       (proposed_actions (reasoner_turn e st))) (reasoner_turn e st) of
             Inl (err, st2) \<Rightarrow> (Failed err, st2)
           | Inr st2 \<Rightarrow> run_loop k e g st2))"
  unfolding run_loop_Suc Let_def reasoner_turn_def by (rule refl)

lemma reasoner_turn_simps:
  "invoked (reasoner_turn e st) = invoked st"
  "iteration (reasoner_turn e st) = Suc (iteration st)"
  "messages (reasoner_turn e st) = messages st @ [model e (systemMessage e # messages st)]"
  by (simp_all add: reasoner_turn_def callModel_def)

text \<open>
  The invocations that a run adds to the log, one by one. A state that the loop started a
  step from is the state \<open>s\<close> that the loop fails in when it is given exactly the
  steps before that step.
\<close>

lemma run_loop_claim_invocations:
  assumes "run_loop k e builder st = (out, st')"
  shows "\<exists>new. invoked st' = invoked st @ new \<and>
           (\<forall>j < length new. name (new ! j) = ''create_or_update_claim'' \<longrightarrow>
              (\<exists>i s pre tc post mid a.
                 i < k \<and> run_loop i e builder st = (Failed StepBoundExceeded, s) \<and>
                 shouldContinue (reasoner_turn e s)
                   = Inr (Nodes (map route_tool_call (pre @ tc # post))) \<and>
                 proposed_actions (reasoner_turn e s) = pre @ tc # post \<and>
                 exec_targets e builder (zip (map route_tool_call pre) pre) (reasoner_turn e s)
                   = Inr mid \<and>
                 invoked mid = invoked st @ take j new \<and>
                 validateClaimDetail e (messages mid) tc = Forward a \<and>
                 new ! j = tc\<lparr>args := a\<rparr>))"
  using assms
proof (induction k arbitrary: st)
  case 0
  then show ?case by simp
next
  case (Suc k)
  let ?st1 = "reasoner_turn e st"
  let ?pa = "proposed_actions ?st1"
  note step = Suc.prems[unfolded run_loop_step]
  show ?case
  proof (cases "shouldContinue ?st1")
    case (Inl err)
    with step have "st' = ?st1" by simp
    then show ?thesis by (simp add: reasoner_turn_simps)
  next
    case (Inr r)
    show ?thesis
    proof (cases r)
      case (Node n)
      with Inr step have "st' = ?st1" by simp
      then show ?thesis by (simp add: reasoner_turn_simps)
    next
      case (Nodes ts)
      with Inr have sc: "shouldContinue ?st1 = Inr (Nodes (map route_tool_call ?pa))"
        using shouldContinue_Nodes[of ?st1 ts] by simp
      let ?x = "exec_targets e builder (zip (map route_tool_call ?pa) ?pa) ?st1"
      define s2 where "s2 = (case ?x of Inl (err, s) \<Rightarrow> s | Inr s \<Rightarrow> s)"
      from exec_targets_claim_invocations[OF s2_def[symmetric]] obtain newb where
        invb: "invoked s2 = invoked st @ newb"
        and okb: "\<forall>j < length newb. name (newb ! j) = ''create_or_update_claim'' \<longrightarrow>
              (\<exists>pre tc post mid a.
                 ?pa = pre @ tc # post \<and>
                 exec_targets e builder (zip (map route_tool_call pre) pre) ?st1 = Inr mid \<and>
                 invoked mid = invoked st @ take j newb \<and>
                 validateClaimDetail e (messages mid) tc = Forward a \<and>
                 newb ! j = tc\<lparr>args := a\<rparr>)"
        by (auto simp: reasoner_turn_simps)
      have zero: "run_loop 0 e builder st = (Failed StepBoundExceeded, st)" by simp
      have batch: "\<exists>i s pre tc post mid a.
                 i < Suc k \<and> run_loop i e builder st = (Failed StepBoundExceeded, s) \<and>
                 shouldContinue (reasoner_turn e s)
                   = Inr (Nodes (map route_tool_call (pre @ tc # post))) \<and>
                 proposed_actions (reasoner_turn e s) = pre @ tc # post \<and>
                 exec_targets e builder (zip (map route_tool_call pre) pre) (reasoner_turn e s)
                   = Inr mid \<and>
                 invoked mid = invoked st @ take j (newb @ rest) \<and>
                 validateClaimDetail e (messages mid) tc = Forward a \<and>
                 (newb @ rest) ! j = tc\<lparr>args := a\<rparr>"
        if j: "j < length newb" and nm: "name ((newb @ rest) ! j) = ''create_or_update_claim''"
        for j rest
      proof -
        from j nm have "name (newb ! j) = ''create_or_update_claim''" by (simp add: nth_append)
        with okb j obtain pre tc post mid a where
          p: "?pa = pre @ tc # post"
          "exec_targets e builder (zip (map route_tool_call pre) pre) ?st1 = Inr mid"
          "invoked mid = invoked st @ take j newb"
          "validateClaimDetail e (messages mid) tc = Forward a"
          "newb ! j = tc\<lparr>args := a\<rparr>"
          by metis
        have "0 < Suc k \<and> run_loop 0 e builder st = (Failed StepBoundExceeded, st) \<and>
              shouldContinue (reasoner_turn e st)
                = Inr (Nodes (map route_tool_call (pre @ tc # post))) \<and>
              proposed_actions (reasoner_turn e st) = pre @ tc # post \<and>
              exec_targets e builder (zip (map route_tool_call pre) pre) (reasoner_turn e st)
                = Inr mid \<and>
              invoked mid = invoked st @ take j (newb @ rest) \<and>
              validateClaimDetail e (messages mid) tc = Forward a \<and>
              (newb @ rest) ! j = tc\<lparr>args := a\<rparr>"
          using p sc j by (simp add: nth_append)
        then show ?thesis by blast
      qed
      show ?thesis
      proof (cases ?x)
        case (Inl q)
        obtain err s where q: "q = (err, s)" by (cases q)
        with Inl have "s2 = s" by (simp add: s2_def)
        moreover from step \<open>shouldContinue ?st1 = Inr r\<close> Nodes Inl q have "st' = s" by simp
        ultimately have "invoked st' = invoked st @ newb" using invb by simp
        moreover have "\<forall>j < length newb. name (newb ! j) = ''create_or_update_claim'' \<longrightarrow>
              (\<exists>i s pre tc post mid a.
                 i < Suc k \<and> run_loop i e builder st = (Failed StepBoundExceeded, s) \<and>
                 shouldContinue (reasoner_turn e s)
                   = Inr (Nodes (map route_tool_call (pre @ tc # post))) \<and>
                 proposed_actions (reasoner_turn e s) = pre @ tc # post \<and>
                 exec_targets e builder (zip (map route_tool_call pre) pre) (reasoner_turn e s)
                   = Inr mid \<and>
                 invoked mid = invoked st @ take j newb \<and>
                 validateClaimDetail e (messages mid) tc = Forward a \<and>
                 newb ! j = tc\<lparr>args := a\<rparr>)"
          using batch[of _ "[]"] by simp
        ultimately show ?thesis by blast
      next
        case (Inr s)
        then have s: "s2 = s" by (simp add: s2_def)
        from step \<open>shouldContinue ?st1 = Inr r\<close> Nodes Inr
        have rest: "run_loop k e builder s2 = (out, st')" by (simp add: s)
        have cont: "run_loop (Suc i) e builder st = run_loop i e builder s2" for i
          unfolding run_loop_step using \<open>shouldContinue ?st1 = Inr r\<close> Nodes Inr s by simp
        from Suc.IH[OF rest] obtain newr where
          invr: "invoked st' = invoked s2 @ newr"
          and okr: "\<forall>j < length newr. name (newr ! j) = ''create_or_update_claim'' \<longrightarrow>
              (\<exists>i s pre tc post mid a.
                 i < k \<and> run_loop i e builder s2 = (Failed StepBoundExceeded, s) \<and>
                 shouldContinue (reasoner_turn e s)
                   = Inr (Nodes (map route_tool_call (pre @ tc # post))) \<and>
                 proposed_actions (reasoner_turn e s) = pre @ tc # post \<and>
                 exec_targets e builder (zip (map route_tool_call pre) pre) (reasoner_turn e s)
                   = Inr mid \<and>
                 invoked mid = invoked s2 @ take j newr \<and>
                 validateClaimDetail e (messages mid) tc = Forward a \<and>
                 newr ! j = tc\<lparr>args := a\<rparr>)"
          by blast
        have "\<forall>j < length (newb @ newr).
              name ((newb @ newr) ! j) = ''create_or_update_claim'' \<longrightarrow>
              (\<exists>i s pre tc post mid a.
                 i < Suc k \<and> run_loop i e builder st = (Failed StepBoundExceeded, s) \<and>
                 shouldContinue (reasoner_turn e s)
                   = Inr (Nodes (map route_tool_call (pre @ tc # post))) \<and>
                 proposed_actions (reasoner_turn e s) = pre @ tc # post \<and>
                 exec_targets e builder (zip (map route_tool_call pre) pre) (reasoner_turn e s)
                   = Inr mid \<and>
                 invoked mid = invoked st @ take j (newb @ newr) \<and>
                 validateClaimDetail e (messages mid) tc = Forward a \<and>
                 (newb @ newr) ! j = tc\<lparr>args := a\<rparr>)"
        proof (intro allI impI)
          fix j assume j: "j < length (newb @ newr)"
            and nm: "name ((newb @ newr) ! j) = ''create_or_update_claim''"
          show "\<exists>i s pre tc post mid a.
                 i < Suc k \<and> run_loop i e builder st = (Failed StepBoundExceeded, s) \<and>
                 shouldContinue (reasoner_turn e s)
                   = Inr (Nodes (map route_tool_call (pre @ tc # post))) \<and>
                 proposed_actions (reasoner_turn e s) = pre @ tc # post \<and>
                 exec_targets e builder (zip (map route_tool_call pre) pre) (reasoner_turn e s)
                   = Inr mid \<and>
                 invoked mid = invoked st @ take j (newb @ newr) \<and>
                 validateClaimDetail e (messages mid) tc = Forward a \<and>
                 (newb @ newr) ! j = tc\<lparr>args := a\<rparr>"
          proof (cases "j < length newb")
            case True
            from batch[OF True nm] show ?thesis .
          next
            case False
            define j' where "j' = j - length newb"
            from False j have j': "j' < length newr" "j = length newb + j'"
              by (simp_all add: j'_def)
            have nth: "(newb @ newr) ! j = newr ! j'" using j' by (simp add: nth_append)
            with nm okr j' obtain i s0 pre tc post mid a where
              p: "i < k" "run_loop i e builder s2 = (Failed StepBoundExceeded, s0)"
              "shouldContinue (reasoner_turn e s0)
                   = Inr (Nodes (map route_tool_call (pre @ tc # post)))"
              "proposed_actions (reasoner_turn e s0) = pre @ tc # post"
              "exec_targets e builder (zip (map route_tool_call pre) pre) (reasoner_turn e s0)
                   = Inr mid"
              "invoked mid = invoked s2 @ take j' newr"
              "validateClaimDetail e (messages mid) tc = Forward a"
              "newr ! j' = tc\<lparr>args := a\<rparr>"
              by metis
            have "Suc i < Suc k \<and>
                 run_loop (Suc i) e builder st = (Failed StepBoundExceeded, s0) \<and>
                 shouldContinue (reasoner_turn e s0)
                   = Inr (Nodes (map route_tool_call (pre @ tc # post))) \<and>
                 proposed_actions (reasoner_turn e s0) = pre @ tc # post \<and>
                 exec_targets e builder (zip (map route_tool_call pre) pre) (reasoner_turn e s0)
                   = Inr mid \<and>
                 invoked mid = invoked st @ take j (newb @ newr) \<and>
                 validateClaimDetail e (messages mid) tc = Forward a \<and>
                 (newb @ newr) ! j = tc\<lparr>args := a\<rparr>"
              using p cont[of i] invb nth j' by simp
            then show ?thesis by blast
          qed
        qed
        moreover have "invoked st' = invoked st @ (newb @ newr)" using invr invb by simp
        ultimately show ?thesis by blast
      qed
    qed
  qed
qed

lemma rejected_claim_in_batch:
  assumes "name tc = ''create_or_update_claim''"
    and "exec_targets e builder (zip (map route_tool_call pre) pre) st = Inr mid"
    and "validateClaimDetail e (messages mid) tc = Reject why"
  shows "exec_targets e builder (zip (map route_tool_call (pre @ tc # post)) (pre @ tc # post)) st
           = exec_targets e builder (zip (map route_tool_call post) post)
               (mid\<lparr>messages := messages mid @ [tool_turn why]\<rparr>)"
proof -
  have "exec_path (length (nodes builder)) e builder (route_tool_call tc) (Some tc) mid
          = Inr (mid\<lparr>messages := messages mid @ [tool_turn why]\<rparr>)"
    unfolding exec_path_routed using assms(1,3) by simp
  then have "exec_targets e builder (zip (map route_tool_call (tc # post)) (tc # post)) mid
          = exec_targets e builder (zip (map route_tool_call post) post)
               (mid\<lparr>messages := messages mid @ [tool_turn why]\<rparr>)"
    by simp
  then show ?thesis
    unfolding routed_append exec_targets_append using assms(2) by simp
qed




section \<open>Sample runs\<close>

text \<open>The scenario of the claim update, run on the sample collaborators.\<close>

lemma scenario_run:
  "run_loop 3 scenario_env builder sample_state =
     (Terminated,
      \<lparr>messages = [HumanMessage ''I was in a car accident, my claim ID is 123'',
                   AIMessage [] (Some [claim_call]), tool_turn ''claim updated'',
                   AIMessage ''Your claim 123 has been updated.'' (Some [])],
       iteration = 2, invoked = [claim_call]\<rparr>)"
  by code_simp

text \<open>A Reasoner turn without actions ends the loop with that turn as the latest message.\<close>

lemma run_loop_plain_answer:
  assumes "tool_calls (model e (systemMessage e # messages st)) = None \<or>
           tool_calls (model e (systemMessage e # messages st)) = Some []"
  shows "run_loop (Suc k) e g st =
           (Terminated,
            st\<lparr>messages := messages st @ [model e (systemMessage e # messages st)],
               iteration := Suc (iteration st)\<rparr>)"
  using assms
  by (auto simp: shouldContinue_def callModel_def lastMessage_snoc no_length_def)

text \<open>
  Two requests that name different threads, served one after the other by the engine
  with its checkpoint store: the second run continues the history of the first, under
  the thread \<open>thread1\<close>, and nothing is stored under the threads the requests name.
\<close>

lemma requests_share_one_history:
  "(let (r1, store1) = api_chat (graph_invoke scenario_env builder) Map.empty alice_request;
        (r2, store2) = api_chat (graph_invoke scenario_env builder) store1 bob_request
    in (map_option (map content) (store2 ''thread1''), store2 ''alice'', store2 ''bob'')) =
   (Some [''hello'', [], ''claim updated'', ''Your claim 123 has been updated.'',
          ''hello'', [], ''claim updated'', ''Your claim 123 has been updated.''],
    None, None)"
  by code_simp

section \<open>The Router\<close>

text \<open>
  Claim C1. For an assistant turn that carries one or more proposed actions, the Router
  returns one target per action, in the order of the actions, and each target depends on
  the name of its action alone: \<open>create_or_update_claim\<close> goes to the node of the
  claim-detail validation, \<open>approve_payment\<close> to the node of the approval-rule
  validation, and any other name to the node \<open>tools\<close>, the generic tool dispatcher.
\<close>

theorem router_classifies_each_action:
  assumes "lastMessage (messages st) = Some t" and "getType t = ''ai''"
    and "tool_calls t = Some tcs" and "tcs \<noteq> []"
  shows "\<exists>ts. shouldContinue st = Inr (Nodes ts) \<and> length ts = length tcs \<and>
           (\<forall>i < length tcs.
              (name (tcs ! i) = ''create_or_update_claim'' \<longrightarrow>
                 ts ! i = ''prepare_claim_detail'' \<and>
                 node_of builder (ts ! i) = Some ValidateClaimDetail) \<and>
              (name (tcs ! i) = ''approve_payment'' \<longrightarrow>
                 ts ! i = ''execute_approve_payment'' \<and>
                 node_of builder (ts ! i) = Some ValidateApprovalRequest) \<and>
              (name (tcs ! i) \<noteq> ''create_or_update_claim'' \<and>
               name (tcs ! i) \<noteq> ''approve_payment'' \<longrightarrow>
                 ts ! i = ''tools'' \<and> node_of builder (ts ! i) = Some ToolNodeAllTools))"
proof -
  let ?ts = "map route_tool_call tcs"
  have "shouldContinue st = Inr (Nodes ?ts)"
    using assms by (simp add: shouldContinue_def no_length_def)
  moreover have "length ?ts = length tcs" by simp
  moreover have "\<forall>i < length tcs.
              (name (tcs ! i) = ''create_or_update_claim'' \<longrightarrow>
                 ?ts ! i = ''prepare_claim_detail'' \<and>
                 node_of builder (?ts ! i) = Some ValidateClaimDetail) \<and>
              (name (tcs ! i) = ''approve_payment'' \<longrightarrow>
                 ?ts ! i = ''execute_approve_payment'' \<and>
                 node_of builder (?ts ! i) = Some ValidateApprovalRequest) \<and>
              (name (tcs ! i) \<noteq> ''create_or_update_claim'' \<and>
               name (tcs ! i) \<noteq> ''approve_payment'' \<longrightarrow>
                 ?ts ! i = ''tools'' \<and> node_of builder (?ts ! i) = Some ToolNodeAllTools)"
    by (simp add: route_tool_call_def node_of_builder_simps)
  ultimately show ?thesis by blast
qed

text \<open>The turn with a claim update, a fraud check and a payment approval.\<close>

theorem router_classifies_each_action_witness:
  "lastMessage (messages mixed_state) = Some mixed_turn \<and> getType mixed_turn = ''ai'' \<and>
   tool_calls mixed_turn = Some [claim_call, fraud_call, payment_call] \<and>
   shouldContinue mixed_state
     = Inr (Nodes [''prepare_claim_detail'', ''tools'', ''execute_approve_payment'']) \<and>
   node_of builder ''prepare_claim_detail'' = Some ValidateClaimDetail \<and>
   node_of builder ''tools'' = Some ToolNodeAllTools \<and>
   node_of builder ''execute_approve_payment'' = Some ValidateApprovalRequest"
proof -
  have h1: "lastMessage (messages mixed_state) = Some mixed_turn"
    by (simp add: mixed_state_def lastMessage_def)
  have h2: "getType mixed_turn = ''ai''"
    by (simp add: mixed_turn_def AIMessage_def)
  have h3: "tool_calls mixed_turn = Some [claim_call, fraud_call, payment_call]"
    by (simp add: mixed_turn_def AIMessage_def)
  have h4: "[claim_call, fraud_call, payment_call] \<noteq> []" by simp
  have n: "name claim_call = ''create_or_update_claim''" "name fraud_call = ''fraud_check''"
    "name payment_call = ''approve_payment''"
    by (simp_all add: claim_call_def fraud_call_def payment_call_def)
  let ?tcs = "[claim_call, fraud_call, payment_call]"
  from router_classifies_each_action[OF h1 h2 h3 h4] obtain ts where
    sc: "shouldContinue mixed_state = Inr (Nodes ts)" and len: "length ts = length ?tcs"
    and all: "\<forall>i < length ?tcs.
              (name (?tcs ! i) = ''create_or_update_claim'' \<longrightarrow>
                 ts ! i = ''prepare_claim_detail'' \<and>
                 node_of builder (ts ! i) = Some ValidateClaimDetail) \<and>
              (name (?tcs ! i) = ''approve_payment'' \<longrightarrow>
                 ts ! i = ''execute_approve_payment'' \<and>
                 node_of builder (ts ! i) = Some ValidateApprovalRequest) \<and>
              (name (?tcs ! i) \<noteq> ''create_or_update_claim'' \<and>
               name (?tcs ! i) \<noteq> ''approve_payment'' \<longrightarrow>
                 ts ! i = ''tools'' \<and> node_of builder (ts ! i) = Some ToolNodeAllTools)"
    by blast
  from all[rule_format, of 0] n have t0: "ts ! 0 = ''prepare_claim_detail''"
    "node_of builder ''prepare_claim_detail'' = Some ValidateClaimDetail" by auto
  from all[rule_format, of 1] n have t1: "ts ! 1 = ''tools''"
    "node_of builder ''tools'' = Some ToolNodeAllTools" by auto
  from all[rule_format, of 2] n have t2: "ts ! 2 = ''execute_approve_payment''"
    "node_of builder ''execute_approve_payment'' = Some ValidateApprovalRequest" by auto
  from len obtain a b c where "ts = [a, b, c]"
    by (auto simp: length_Suc_conv)
  with t0 t1 t2 have "ts = [''prepare_claim_detail'', ''tools'', ''execute_approve_payment'']"
    by simp
  with sc h1 h2 h3 t0 t1 t2 show ?thesis by simp
qed

text \<open>
  Claim C9. The routing decision is a function of the latest turn alone: whatever the
  earlier history and whatever else the state holds, the same turn gets the same
  decision, so deciding again on the same turn gives the same targets. The routing
  function returns its decision and nothing else; it has no state of its own to change.
\<close>

theorem routing_same_turn_same_decision:
  fixes s1 :: "'a state_scheme" and s2 :: "'b state_scheme"
  shows "shouldContinue (s1\<lparr>messages := h1 @ [t]\<rparr>)
           = shouldContinue (s2\<lparr>messages := h2 @ [t]\<rparr>)"
  by (simp add: shouldContinue_def lastMessage_snoc)

text \<open>The three-action turn after two different histories, in two different states.\<close>

theorem routing_same_turn_same_decision_witness:
  "shouldContinue (final_state\<lparr>messages := [] @ [mixed_turn]\<rparr>)
     = shouldContinue (sample_state\<lparr>messages := messages sample_state @ [mixed_turn]\<rparr>) \<and>
   shouldContinue (final_state\<lparr>messages := [] @ [mixed_turn]\<rparr>)
     = Inr (Nodes [''prepare_claim_detail'', ''tools'', ''execute_approve_payment''])"
proof -
  have "shouldContinue (final_state\<lparr>messages := [] @ [mixed_turn]\<rparr>)
     = Inr (Nodes [''prepare_claim_detail'', ''tools'', ''execute_approve_payment''])"
    by (simp add: shouldContinue_def mixed_turn_def lastMessage_def
          no_length_def AIMessage_def route_tool_call_def claim_call_def fraud_call_def
          payment_call_def)
  with routing_same_turn_same_decision[where ?s1.0 = final_state and ?h1.0 = "[]"
         and t = mixed_turn and ?s2.0 = sample_state and ?h2.0 = "messages sample_state"]
  show ?thesis by simp
qed

text \<open>
  Claim C10. The routing decision depends on the last message of the state only: two
  states whose last messages are equal (or that both have none) get the same decision,
  however their earlier histories and their other fields differ.
\<close>

theorem routing_depends_on_last_message:
  fixes s1 :: "'a state_scheme" and s2 :: "'b state_scheme"
  assumes "lastMessage (messages s1) = lastMessage (messages s2)"
  shows "shouldContinue s1 = shouldContinue s2"
  using assms by (simp add: shouldContinue_def)

text \<open>Two states with different histories and the same last message.\<close>

theorem routing_depends_on_last_message_witness:
  "lastMessage (messages mixed_state) = lastMessage (messages \<lparr>messages = [mixed_turn]\<rparr>) \<and>
   messages mixed_state \<noteq> messages \<lparr>messages = [mixed_turn]\<rparr> \<and>
   shouldContinue mixed_state = shouldContinue \<lparr>messages = [mixed_turn]\<rparr>"
proof -
  have h: "lastMessage (messages mixed_state) = lastMessage (messages \<lparr>messages = [mixed_turn]\<rparr>)"
    by (simp add: mixed_state_def lastMessage_def)
  from routing_depends_on_last_message[OF h] h show ?thesis by (simp add: mixed_state_def)
qed

text \<open>
  Claim C3. A Reasoner turn that carries no proposed action (its list of tool calls is
  missing or empty) makes the Router select \<open>END\<close>, and the entry point answers with
  the content of that turn, unchanged: the response is the content of the last message
  of the state the run returns.
\<close>

theorem no_actions_ends_with_content:
  assumes "lastMessage (messages st) = Some t"
    and "tool_calls t = None \<or> tool_calls t = Some []"
  shows "shouldContinue st = Inr (Node END) \<and> chat_response st = Inr (content t) \<and>
         (invoke s \<lparr>messages = [HumanMessage (message req)]\<rparr>
                   \<lparr>thread_id = thread_id config, recursionLimit = 15\<rparr> = (Inr st, s') \<longrightarrow>
            api_chat invoke s req = (Inr (content t), s'))"
  using assms
  by (auto simp: shouldContinue_def chat_response_def no_length_def api_chat_def)

text \<open>The final answer of the claim scenario.\<close>

theorem no_actions_ends_with_content_witness:
  "lastMessage (messages final_state) = Some final_turn \<and> tool_calls final_turn = Some [] \<and>
   shouldContinue final_state = Inr (Node END) \<and>
   chat_response final_state = Inr ''Your claim 123 has been updated.'' \<and>
   answering_invoke () \<lparr>messages = [HumanMessage (message thanks_request)]\<rparr>
       \<lparr>thread_id = thread_id config, recursionLimit = 15\<rparr> = (Inr final_state, ()) \<and>
   api_chat answering_invoke () thanks_request = (Inr ''Your claim 123 has been updated.'', ())"
proof -
  have h1: "lastMessage (messages final_state) = Some final_turn"
    by (simp add: final_state_def lastMessage_def)
  have h2: "tool_calls final_turn = Some []"
    by (simp add: final_turn_def AIMessage_def)
  have h3: "answering_invoke () \<lparr>messages = [HumanMessage (message thanks_request)]\<rparr>
       \<lparr>thread_id = thread_id config, recursionLimit = 15\<rparr> = (Inr final_state, ())"
    by (simp add: answering_invoke_def final_state_def thanks_request_def)
  have c: "content final_turn = ''Your claim 123 has been updated.''"
    by (simp add: final_turn_def AIMessage_def)
  from no_actions_ends_with_content[OF h1 disjI2[OF h2],
         of answering_invoke "()" thanks_request "()"] h1 h2 h3 c
  show ?thesis by simp
qed

text \<open>
  Claim C5, as amended. An action whose name is neither \<open>create_or_update_claim\<close> nor
  \<open>approve_payment\<close> raises no error in the Router, whether a tool of that name exists
  or not: the Router returns one target per action and the target of this action is
  \<open>tools\<close>, the generic tool dispatcher. The Router has no \<open>UnknownAction\<close> error and
  does not consult the tools at all.
\<close>

theorem other_names_route_to_tools:
  assumes "lastMessage (messages st) = Some t" and "getType t = ''ai''"
    and "tool_calls t = Some tcs" and "i < length tcs"
    and "name (tcs ! i) \<noteq> ''create_or_update_claim''" and "name (tcs ! i) \<noteq> ''approve_payment''"
  shows "\<exists>ts. shouldContinue st = Inr (Nodes ts) \<and> length ts = length tcs \<and> ts ! i = ''tools''"
  using assms by (auto simp: shouldContinue_def no_length_def route_tool_call_def)

text \<open>A fraud check together with an action that no tool is named after.\<close>

theorem other_names_route_to_tools_witness:
  "lastMessage [HumanMessage ''hi'', AIMessage [] (Some [fraud_call, unknown_call])]
     = Some (AIMessage [] (Some [fraud_call, unknown_call])) \<and>
   name ([fraud_call, unknown_call] ! 1) = ''launch_rocket'' \<and>
   (\<exists>ts. shouldContinue
            \<lparr>messages = [HumanMessage ''hi'', AIMessage [] (Some [fraud_call, unknown_call])]\<rparr>
            = Inr (Nodes ts) \<and>
         length ts = length [fraud_call, unknown_call] \<and> ts ! 1 = ''tools'')"
proof -
  let ?t = "AIMessage [] (Some [fraud_call, unknown_call])"
  let ?st = "\<lparr>messages = [HumanMessage ''hi'', ?t]\<rparr>"
  have h1: "lastMessage (messages ?st) = Some ?t" by (simp add: lastMessage_def)
  have h2: "getType ?t = ''ai''" by (simp add: AIMessage_def)
  have h3: "tool_calls ?t = Some [fraud_call, unknown_call]" by (simp add: AIMessage_def)
  have h4: "1 < length [fraud_call, unknown_call]" by simp
  have n: "name ([fraud_call, unknown_call] ! 1) = ''launch_rocket''"
    by (simp add: unknown_call_def)
  have h5: "name ([fraud_call, unknown_call] ! 1) \<noteq> ''create_or_update_claim''"
    and h6: "name ([fraud_call, unknown_call] ! 1) \<noteq> ''approve_payment''"
    by (simp_all add: unknown_call_def)
  from h1 have h1': "lastMessage [HumanMessage ''hi'', ?t] = Some ?t" by simp
  from other_names_route_to_tools[OF h1 h2 h3 h4 h5 h6] h1' n show ?thesis by blast
qed

text \<open>
  The claim as stated fails: the action \<open>launch_rocket\<close>, which is in no routing rule
  and is not the name of any sample tool, is routed to \<open>tools\<close> without an error.
\<close>

theorem unknown_action_is_routed_to_tools:
  "map_of sample_tools (name unknown_call) = None \<and>
   shouldContinue \<lparr>messages = [HumanMessage ''hi'', AIMessage [] (Some [unknown_call])]\<rparr>
     = Inr (Nodes [''tools''])"
  by (simp add: shouldContinue_def lastMessage_def no_length_def route_tool_call_def
        AIMessage_def unknown_call_def sample_tools_def)

text \<open>
  Claim C6, as amended. A turn whose list of tool calls is missing or empty makes the
  Router select \<open>END\<close> without an error, and the error
  \<open>Expected tool_calls to be an array with at least one element\<close> is never raised,
  whatever the state: the check before it has already returned \<open>END\<close>.
\<close>

theorem no_tool_calls_ends_without_error:
  "shouldContinue st \<noteq> Inl (Error msg) \<and>
   (lastMessage (messages st) = Some t \<and> (tool_calls t = None \<or> tool_calls t = Some []) \<longrightarrow>
      shouldContinue st = Inr (Node END))"
  by (auto simp: shouldContinue_def no_length_def split: option.splits)

text \<open>An assistant turn that announces a tool call and carries none.\<close>

theorem no_tool_calls_ends_without_error_witness:
  "lastMessage [HumanMessage ''update my claim'', AIMessage ''calling the tool'' None]
     = Some (AIMessage ''calling the tool'' None) \<and>
   tool_calls (AIMessage ''calling the tool'' None) = None \<and>
   shouldContinue
       \<lparr>messages = [HumanMessage ''update my claim'', AIMessage ''calling the tool'' None]\<rparr>
     = Inr (Node END)"
proof -
  let ?t = "AIMessage ''calling the tool'' None"
  let ?st = "\<lparr>messages = [HumanMessage ''update my claim'', ?t]\<rparr>"
  have h1: "lastMessage (messages ?st) = Some ?t" by (simp add: lastMessage_def)
  have h2: "tool_calls ?t = None" by (simp add: AIMessage_def)
  from no_tool_calls_ends_without_error[of ?st "[]" ?t] h1 h2 show ?thesis by simp
qed

text \<open>
  The claim as stated fails: an assistant turn without its tool calls ends the run
  silently.
\<close>

theorem missing_tool_calls_end_silently:
  "shouldContinue
       \<lparr>messages = [HumanMessage ''update my claim'', AIMessage ''calling the tool'' None]\<rparr>
     = Inr (Node END)"
  by (simp add: shouldContinue_def lastMessage_def no_length_def AIMessage_def)

section \<open>The graph\<close>

text \<open>
  Claim C4. Every path that does not end the run leads back to the Reasoner. A node
  other than \<open>agent\<close> has regular edges only: none of them goes to \<open>END\<close>, the node has
  no conditional edge, and each edge goes to \<open>agent\<close> or to a node whose only edge goes
  to \<open>agent\<close> (a validation node is followed by \<open>tools\<close>, and \<open>tools\<close> by
  \<open>agent\<close>). Every target that the Router returns is such a node.
\<close>

theorem paths_return_to_agent:
  "(node_of builder n = Some f \<and> f \<noteq> CallModel \<longrightarrow>
      successors builder n \<noteq> [] \<and> END \<notin> set (successors builder n) \<and>
      conditional_targets builder n = [] \<and>
      (\<forall>m \<in> set (successors builder n). m = ''agent'' \<or> successors builder m = [''agent''])) \<and>
   (shouldContinue st = Inr (Nodes ts) \<and> t \<in> set ts \<longrightarrow>
      (\<exists>f. node_of builder t = Some f \<and> f \<noteq> CallModel))"
proof (intro conjI impI)
  assume a: "shouldContinue st = Inr (Nodes ts) \<and> t \<in> set ts"
  then obtain tc where "t = route_tool_call tc"
    using shouldContinue_Nodes[of st ts] by auto
  then show "\<exists>f. node_of builder t = Some f \<and> f \<noteq> CallModel"
    using route_tool_call_cases[of tc] by (auto simp: node_of_builder_simps)
next
  assume a: "node_of builder n = Some f \<and> f \<noteq> CallModel"
  then have c: "n = ''tools'' \<or> n = ''prepare_claim_detail'' \<or> n = ''execute_approve_payment''"
    using node_of_builder_cases[of n f] by auto
  from c show "successors builder n \<noteq> []" by (auto simp: successors_builder_simps)
  from c show "END \<notin> set (successors builder n)" by (auto simp: successors_builder_simps END_def)
  from c show "conditional_targets builder n = []"
    by (auto simp: conditional_targets_def builder_conditionalEdges)
  from c show "\<forall>m \<in> set (successors builder n). m = ''agent'' \<or> successors builder m = [''agent'']"
    by (auto simp: successors_builder_simps)
qed

text \<open>The node of the claim-detail validation, and the targets of the three-action turn.\<close>

theorem paths_return_to_agent_witness:
  "node_of builder ''prepare_claim_detail'' = Some ValidateClaimDetail \<and>
   successors builder ''prepare_claim_detail'' = [''tools''] \<and>
   successors builder ''tools'' = [''agent''] \<and>
   END \<notin> set (successors builder ''prepare_claim_detail'') \<and>
   conditional_targets builder ''prepare_claim_detail'' = [] \<and>
   shouldContinue mixed_state
     = Inr (Nodes [''prepare_claim_detail'', ''tools'', ''execute_approve_payment'']) \<and>
   node_of builder ''execute_approve_payment'' = Some ValidateApprovalRequest"
proof -
  have h1: "node_of builder ''prepare_claim_detail'' = Some ValidateClaimDetail"
    by (simp add: node_of_builder_simps)
  have h2: "shouldContinue mixed_state
     = Inr (Nodes [''prepare_claim_detail'', ''tools'', ''execute_approve_payment''])"
    by (simp add: shouldContinue_def mixed_state_def mixed_turn_def lastMessage_def
          no_length_def AIMessage_def route_tool_call_def claim_call_def fraud_call_def
          payment_call_def)
  have s: "successors builder ''prepare_claim_detail'' = [''tools'']"
    "successors builder ''tools'' = [''agent'']"
    by (simp_all add: successors_builder_simps)
  from paths_return_to_agent[of "''prepare_claim_detail''" ValidateClaimDetail mixed_state
        "[''prepare_claim_detail'', ''tools'', ''execute_approve_payment'']"
        "''execute_approve_payment''"] h1 h2 s
  show ?thesis by (auto simp: node_of_builder_simps)
qed

section \<open>The entry point\<close>

text \<open>
  Claim C8, as amended. The entry point reads the message of the request and nothing
  else: whatever other parameters the request carries, a thread identifier among them,
  the graph is invoked with the same input, the recursion limit 15 and the fixed thread
  \<open>thread1\<close>. When the run returns a state, the response is the content of the last
  message of that state.
\<close>

theorem entry_point_runs_fixed_thread:
  "api_chat invoke s (req\<lparr>params := ps\<rparr>) = api_chat invoke s req \<and>
   (invoke s \<lparr>messages = [HumanMessage (message req)]\<rparr>
             \<lparr>thread_id = ''thread1'', recursionLimit = 15\<rparr> = (Inr result, s') \<and>
    lastMessage (messages result) = Some t \<longrightarrow>
      api_chat invoke s req = (Inr (content t), s'))"
  by (simp add: api_chat_def config_def chat_response_def)

text \<open>A request that names the thread \<open>alice\<close>, served by the probing engine.\<close>

theorem entry_point_runs_fixed_thread_witness:
  "probe_invoke () \<lparr>messages = [HumanMessage (message alice_request)]\<rparr>
       \<lparr>thread_id = ''thread1'', recursionLimit = 15\<rparr>
     = (Inr \<lparr>messages = [HumanMessage ''hello'', AIMessage ''thread1'' None]\<rparr>, ()) \<and>
   lastMessage [HumanMessage ''hello'', AIMessage ''thread1'' None]
     = Some (AIMessage ''thread1'' None) \<and>
   api_chat probe_invoke () alice_request = (Inr ''thread1'', ()) \<and>
   api_chat probe_invoke () (alice_request\<lparr>params := params bob_request\<rparr>)
     = api_chat probe_invoke () alice_request"
proof -
  let ?r = "\<lparr>messages = [HumanMessage ''hello'', AIMessage ''thread1'' None]\<rparr>"
  have h1: "probe_invoke () \<lparr>messages = [HumanMessage (message alice_request)]\<rparr>
       \<lparr>thread_id = ''thread1'', recursionLimit = 15\<rparr> = (Inr ?r, ())"
    by (simp add: probe_invoke_def alice_request_def)
  have h2: "lastMessage (messages ?r) = Some (AIMessage ''thread1'' None)"
    by (simp add: lastMessage_def)
  have c: "content (AIMessage ''thread1'' None) = ''thread1''" by (simp add: AIMessage_def)
  from entry_point_runs_fixed_thread[where invoke = probe_invoke and s = "()" and req = alice_request
         and ps = "params bob_request" and result = ?r and s' = "()"
         and t = "AIMessage ''thread1'' None"] h1 h2 c
  show ?thesis by simp
qed

text \<open>
  The claim as stated fails: two requests that name different threads are both run on
  the thread \<open>thread1\<close>.
\<close>

theorem thread_id_of_request_is_ignored:
  "params alice_request \<noteq> params bob_request \<and>
   api_chat probe_invoke () alice_request = (Inr ''thread1'', ()) \<and>
   api_chat probe_invoke () bob_request = (Inr ''thread1'', ())"
  by (simp add: api_chat_def probe_invoke_def alice_request_def bob_request_def config_def
        chat_response_def lastMessage_def AIMessage_def)

section \<open>The validation of claim updates\<close>

text \<open>
  Claim C2. The executor of a tool is invoked for an action named
  \<open>create_or_update_claim\<close> only after the claim-detail validation has approved that
  action. Every invocation of that name that a run adds to the log, the \<open>j\<close>-th say,
  was made in a step of the run (the one that starts from the state \<open>s\<close> reached after
  \<open>i\<close> steps) for an action \<open>act\<close> that the Reasoner proposed in that step; it was
  made from the state \<open>mid\<close> that the run had reached after the actions before
  \<open>act\<close>, where the log held the earlier invocations and no more; the validation,
  asked about \<open>act\<close> on the history of \<open>mid\<close>, forwarded it; and the invocation is
  \<open>act\<close> with the arguments the validation returned. When the validation rejects a
  claim update, at any position in a turn with any number of actions, the path of that
  action leaves the log as it is and appends a tool-result turn with the explanation,
  and the remaining actions are executed from there.
\<close>

theorem claim_tool_runs_only_after_approval:
  "(run_loop k e builder st = (out, st') \<longrightarrow>
      (\<exists>new. invoked st' = invoked st @ new \<and>
         (\<forall>j < length new. name (new ! j) = ''create_or_update_claim'' \<longrightarrow>
            (\<exists>i s pre act post mid a ext.
               i < k \<and> run_loop i e builder st = (Failed StepBoundExceeded, s) \<and>
               shouldContinue (reasoner_turn e s)
                 = Inr (Nodes (map route_tool_call (pre @ act # post))) \<and>
               proposed_actions (reasoner_turn e s) = pre @ act # post \<and>
               name act = ''create_or_update_claim'' \<and>
               exec_targets e builder (zip (map route_tool_call pre) pre) (reasoner_turn e s)
                 = Inr mid \<and>
               invoked mid = invoked st @ take j new \<and>
               messages mid = messages st @ ext \<and>
               validateClaimDetail e (messages mid) act = Forward a \<and>
               new ! j = act\<lparr>args := a\<rparr>)))) \<and>
   (name tc = ''create_or_update_claim'' \<and>
    exec_targets e builder (zip (map route_tool_call pre) pre) st = Inr mid \<and>
    validateClaimDetail e (messages mid) tc = Reject why \<longrightarrow>
      exec_targets e builder (zip (map route_tool_call (pre @ tc # post)) (pre @ tc # post)) st
        = exec_targets e builder (zip (map route_tool_call post) post)
            (mid\<lparr>messages := messages mid @ [tool_turn why]\<rparr>))"
proof (intro conjI impI)
  assume r: "run_loop k e builder st = (out, st')"
  from run_loop_claim_invocations[OF r] obtain new where
    inv: "invoked st' = invoked st @ new"
    and ok: "\<forall>j < length new. name (new ! j) = ''create_or_update_claim'' \<longrightarrow>
              (\<exists>i s pre tc post mid a.
                 i < k \<and> run_loop i e builder st = (Failed StepBoundExceeded, s) \<and>
                 shouldContinue (reasoner_turn e s)
                   = Inr (Nodes (map route_tool_call (pre @ tc # post))) \<and>
                 proposed_actions (reasoner_turn e s) = pre @ tc # post \<and>
                 exec_targets e builder (zip (map route_tool_call pre) pre) (reasoner_turn e s)
                   = Inr mid \<and>
                 invoked mid = invoked st @ take j new \<and>
                 validateClaimDetail e (messages mid) tc = Forward a \<and>
                 new ! j = tc\<lparr>args := a\<rparr>)"
    by blast
  have "\<forall>j < length new. name (new ! j) = ''create_or_update_claim'' \<longrightarrow>
            (\<exists>i s pre act post mid a ext.
               i < k \<and> run_loop i e builder st = (Failed StepBoundExceeded, s) \<and>
               shouldContinue (reasoner_turn e s)
                 = Inr (Nodes (map route_tool_call (pre @ act # post))) \<and>
               proposed_actions (reasoner_turn e s) = pre @ act # post \<and>
               name act = ''create_or_update_claim'' \<and>
               exec_targets e builder (zip (map route_tool_call pre) pre) (reasoner_turn e s)
                 = Inr mid \<and>
               invoked mid = invoked st @ take j new \<and>
               messages mid = messages st @ ext \<and>
               validateClaimDetail e (messages mid) act = Forward a \<and>
               new ! j = act\<lparr>args := a\<rparr>)"
  proof (intro allI impI)
    fix j assume j: "j < length new" and nm: "name (new ! j) = ''create_or_update_claim''"
    with ok obtain i s pre act post mid a where
      p: "i < k" "run_loop i e builder st = (Failed StepBoundExceeded, s)"
      "shouldContinue (reasoner_turn e s) = Inr (Nodes (map route_tool_call (pre @ act # post)))"
      "proposed_actions (reasoner_turn e s) = pre @ act # post"
      "exec_targets e builder (zip (map route_tool_call pre) pre) (reasoner_turn e s) = Inr mid"
      "invoked mid = invoked st @ take j new"
      "validateClaimDetail e (messages mid) act = Forward a"
      "new ! j = act\<lparr>args := a\<rparr>"
      by metis
    from nm p(8) have n: "name act = ''create_or_update_claim''" by simp
    from run_loop_invariant[OF p(2)] obtain e1 where e1: "messages s = messages st @ e1"
      by blast
    from p(5) have "(case exec_targets e builder (zip (map route_tool_call pre) pre)
                       (reasoner_turn e s) of Inl (err, s) \<Rightarrow> s | Inr s \<Rightarrow> s) = mid"
      by simp
    from exec_targets_invariant[OF this] obtain e2 where
      e2: "messages mid = messages (reasoner_turn e s) @ e2" by blast
    have "messages mid = messages st @ (e1 @ callModel e s @ e2)"
      using e1 e2 by (simp add: reasoner_turn_def)
    with p n show "\<exists>i s pre act post mid a ext.
               i < k \<and> run_loop i e builder st = (Failed StepBoundExceeded, s) \<and>
               shouldContinue (reasoner_turn e s)
                 = Inr (Nodes (map route_tool_call (pre @ act # post))) \<and>
               proposed_actions (reasoner_turn e s) = pre @ act # post \<and>
               name act = ''create_or_update_claim'' \<and>
               exec_targets e builder (zip (map route_tool_call pre) pre) (reasoner_turn e s)
                 = Inr mid \<and>
               invoked mid = invoked st @ take j new \<and>
               messages mid = messages st @ ext \<and>
               validateClaimDetail e (messages mid) act = Forward a \<and>
               new ! j = act\<lparr>args := a\<rparr>"
      by blast
  qed
  with inv show "\<exists>new. invoked st' = invoked st @ new \<and>
         (\<forall>j < length new. name (new ! j) = ''create_or_update_claim'' \<longrightarrow>
            (\<exists>i s pre act post mid a ext.
               i < k \<and> run_loop i e builder st = (Failed StepBoundExceeded, s) \<and>
               shouldContinue (reasoner_turn e s)
                 = Inr (Nodes (map route_tool_call (pre @ act # post))) \<and>
               proposed_actions (reasoner_turn e s) = pre @ act # post \<and>
               name act = ''create_or_update_claim'' \<and>
               exec_targets e builder (zip (map route_tool_call pre) pre) (reasoner_turn e s)
                 = Inr mid \<and>
               invoked mid = invoked st @ take j new \<and>
               messages mid = messages st @ ext \<and>
               validateClaimDetail e (messages mid) act = Forward a \<and>
               new ! j = act\<lparr>args := a\<rparr>))"
    by blast
next
  assume "name tc = ''create_or_update_claim'' \<and>
    exec_targets e builder (zip (map route_tool_call pre) pre) st = Inr mid \<and>
    validateClaimDetail e (messages mid) tc = Reject why"
  then show "exec_targets e builder
               (zip (map route_tool_call (pre @ tc # post)) (pre @ tc # post)) st
        = exec_targets e builder (zip (map route_tool_call post) post)
            (mid\<lparr>messages := messages mid @ [tool_turn why]\<rparr>)"
    using rejected_claim_in_batch by blast
qed

text \<open>
  The claim scenario, where the validation approves, and a turn of three actions whose
  claim update the validation rejects: the fraud check and the payment approval run, the
  claim tool does not.
\<close>

theorem claim_tool_runs_only_after_approval_witness:
  "run_loop 3 scenario_env builder sample_state
     = (Terminated, snd (run_loop 3 scenario_env builder sample_state)) \<and>
   invoked (snd (run_loop 3 scenario_env builder sample_state)) = [claim_call] \<and>
   proposed_actions (reasoner_turn scenario_env sample_state) = [claim_call] \<and>
   validateClaimDetail scenario_env (messages (reasoner_turn scenario_env sample_state))
     claim_call = Forward (args claim_call) \<and>
   name incomplete_claim_call = ''create_or_update_claim'' \<and>
   exec_targets scenario_env builder (zip (map route_tool_call [fraud_call]) [fraud_call])
     sample_state = Inr checked_state \<and>
   validateClaimDetail scenario_env (messages checked_state) incomplete_claim_call
     = Reject ''description is missing'' \<and>
   exec_targets scenario_env builder
       (zip (map route_tool_call [fraud_call, incomplete_claim_call, payment_call])
            [fraud_call, incomplete_claim_call, payment_call]) sample_state
     = Inr (sample_state
             \<lparr>messages := messages sample_state @
                  [tool_turn ''no fraud found'', tool_turn ''description is missing'',
                   tool_turn ''payment approved''],
              invoked := [fraud_call, payment_call]\<rparr>)"
proof -
  have h1: "run_loop 3 scenario_env builder sample_state
     = (Terminated, snd (run_loop 3 scenario_env builder sample_state))"
    by (simp add: scenario_run)
  have h2: "invoked (snd (run_loop 3 scenario_env builder sample_state)) = [claim_call]"
    by (simp add: scenario_run)
  have h3: "proposed_actions (reasoner_turn scenario_env sample_state) = [claim_call]"
    by code_simp
  have h4: "validateClaimDetail scenario_env
      (messages (reasoner_turn scenario_env sample_state)) claim_call = Forward (args claim_call)"
    by (simp add: claim_call_def scenario_env_def sample_claim_gate_def)
  have h5: "name incomplete_claim_call = ''create_or_update_claim''"
    by (simp add: incomplete_claim_call_def)
  have h6: "exec_targets scenario_env builder
      (zip (map route_tool_call [fraud_call]) [fraud_call]) sample_state = Inr checked_state"
    by code_simp
  have h7: "validateClaimDetail scenario_env (messages checked_state) incomplete_claim_call
     = Reject ''description is missing''"
    by (simp add: incomplete_claim_call_def scenario_env_def sample_claim_gate_def)
  have h8: "exec_targets scenario_env builder
       (zip (map route_tool_call [payment_call]) [payment_call])
       (checked_state\<lparr>messages := messages checked_state @ [tool_turn ''description is missing'']\<rparr>)
     = Inr (sample_state
             \<lparr>messages := messages sample_state @
                  [tool_turn ''no fraud found'', tool_turn ''description is missing'',
                   tool_turn ''payment approved''],
              invoked := [fraud_call, payment_call]\<rparr>)"
    by code_simp
  from claim_tool_runs_only_after_approval[where k = 3 and e = scenario_env
         and st = sample_state and out = Terminated
         and st' = "snd (run_loop 3 scenario_env builder sample_state)"
         and tc = incomplete_claim_call and pre = "[fraud_call]" and mid = checked_state
         and why = "''description is missing''" and post = "[payment_call]"] h5 h6 h7
  have "exec_targets scenario_env builder
       (zip (map route_tool_call ([fraud_call] @ incomplete_claim_call # [payment_call]))
            ([fraud_call] @ incomplete_claim_call # [payment_call])) sample_state
     = exec_targets scenario_env builder
       (zip (map route_tool_call [payment_call]) [payment_call])
       (checked_state\<lparr>messages := messages checked_state @ [tool_turn ''description is missing'']\<rparr>)"
    by blast
  with h8 have h9: "exec_targets scenario_env builder
       (zip (map route_tool_call [fraud_call, incomplete_claim_call, payment_call])
            [fraud_call, incomplete_claim_call, payment_call]) sample_state
     = Inr (sample_state
             \<lparr>messages := messages sample_state @
                  [tool_turn ''no fraud found'', tool_turn ''description is missing'',
                   tool_turn ''payment approved''],
              invoked := [fraud_call, payment_call]\<rparr>)"
    by simp
  from h1 h2 h3 h4 h5 h6 h7 h9 show ?thesis by blast
qed

section \<open>The step bound\<close>



end
